theory Spec2Isabelle
  imports Complex_Main "HOL-Library.Multiset"
begin

section \<open>Data model of script.js\<close>

text \<open>The seven tetromino kinds (the keys of \<open>TETROS\<close>: S, Z, L, J, T, O, I).\<close>

datatype kind = KS | KZ | KL | KJ | KT | KO | KI

text \<open>A piece matrix holds the numbers 0 and 1; a cell is filled when it is truthy.\<close>

type_synonym matrix = "nat list list"

text \<open>A grid cell is the number 0 (\<open>None\<close>) or the kind that filled it.\<close>

type_synonym cell = "kind option"
type_synonym grid = "cell list list"

definition COLS :: nat where "COLS = 10"
definition ROWS :: nat where "ROWS = 20"

definition TETROS :: "kind \<Rightarrow> matrix" where
  "TETROS k = (case k of
      KS \<Rightarrow> [[0,1,1],
             [1,1,0],
             [0,0,0]]
    | KZ \<Rightarrow> [[1,1,0],
             [0,1,1],
             [0,0,0]]
    | KL \<Rightarrow> [[1,0,0],
             [1,1,1],
             [0,0,0]]
    | KJ \<Rightarrow> [[0,0,1],
             [1,1,1],
             [0,0,0]]
    | KT \<Rightarrow> [[0,1,0],
             [1,1,1],
             [0,0,0]]
    | KO \<Rightarrow> [[1,1],
             [1,1]]
    | KI \<Rightarrow> [[0,0,0,0],
             [1,1,1,1],
             [0,0,0,0],
             [0,0,0,0]])"

text \<open>
  The outcomes that are not a normal return. \<open>TypeError\<close> is the JavaScript exception raised
  when a property of \<open>undefined\<close> is read or written (a row that does not exist, a piece that
  does not exist). \<open>ArrayGrows\<close> is not an exception: it marks an assignment to an index
  outside the existing cells of a row, which JavaScript performs by growing the array (or by
  adding a non-index property); the model stops there instead of following a grid that is no
  longer rectangular.
\<close>

datatype error = TypeError | ArrayGrows

text \<open>The value a method hands back: \<open>return;\<close> gives \<open>undefined\<close>.\<close>

datatype retval = JSUndefined | JSBool bool

record piece =
  ptype :: kind
  matrix :: matrix
  px :: int
  py :: int
  rot :: nat
  locked :: bool

text \<open>\<open>new Piece(type)\<close>: the field initialisers and the constructor.\<close>

definition new_Piece :: "kind \<Rightarrow> piece" where
  "new_Piece t = \<lparr> ptype = t, matrix = TETROS t, px = 3, py = 0, rot = 0, locked = False \<rparr>"

section \<open>Board\<close>

text \<open>
  The fields \<open>width\<close> and \<open>height\<close> of \<open>Board\<close> are initialised to \<open>COLS\<close> and \<open>ROWS\<close>
  and never assigned again, so the board is its grid.
\<close>

definition new_grid :: grid where
  "new_grid = replicate ROWS (replicate COLS None)"

text \<open>\<open>row.every(v => v)\<close>\<close>

definition every :: "cell list \<Rightarrow> bool" where
  "every row = list_all (\<lambda>v. v \<noteq> None) row"

text \<open>\<open>grid.splice(y, 1)\<close> and \<open>grid.unshift(row)\<close>\<close>

definition splice1 :: "'a list \<Rightarrow> nat \<Rightarrow> 'a list" where
  "splice1 xs i = take i xs @ drop (Suc i) xs"

definition unshift :: "'a \<Rightarrow> 'a list \<Rightarrow> 'a list" where
  "unshift r xs = r # xs"

text \<open>
  The loop of \<open>clearLines\<close>, entered at its test \<open>y >= 0\<close>. After a removal the body does
  \<open>y++\<close> and the loop header \<open>y--\<close>, so the same index is examined again. Reading
  \<open>grid[y]\<close> past the last row gives \<open>undefined\<close>, whose \<open>.every\<close> raises.
\<close>

function clearLines_loop :: "grid \<Rightarrow> int \<Rightarrow> nat \<Rightarrow> error + (grid \<times> nat)" where
  "clearLines_loop g y cleared =
     (if y \<ge> 0 then
        (if nat y < length g then
           (if every (g ! nat y) then
              clearLines_loop (unshift (replicate COLS None) (splice1 g (nat y)))
                              ((y + 1) - 1) (cleared + 1)
            else clearLines_loop g (y - 1) cleared)
         else Inl TypeError)
      else Inr (g, cleared))"
  by pat_completeness auto
termination
proof (relation "measures [\<lambda>(g, y, c). length (filter every g), \<lambda>(g, y, c). nat (y + 1)]",
       goal_cases)
  case 1
  show ?case by simp
next
  case (2 g y cleared)
  have split: "g = take (nat y) g @ (g ! nat y) # drop (Suc (nat y)) g"
    using 2 by (simp add: id_take_nth_drop)
  have "length (filter every g) =
        length (filter every (take (nat y) g)) + 1 + length (filter every (drop (Suc (nat y)) g))"
    using 2 by (subst split) simp
  moreover have "\<not> every (replicate COLS None)"
    by (simp add: every_def COLS_def list_all_iff)
  ultimately show ?case
    by (simp add: unshift_def splice1_def)
next
  case (3 g y cleared)
  then show ?case by simp
qed

definition clearLines :: "grid \<Rightarrow> error + (grid \<times> nat)" where
  "clearLines g = clearLines_loop g (int ROWS - 1) 0"

text \<open>
  \<open>this.grid[ny]?.[nx]\<close>: a row or a cell that does not exist reads as \<open>undefined\<close>, which
  is falsy like the empty cell 0.
\<close>

definition grid_at :: "grid \<Rightarrow> int \<Rightarrow> int \<Rightarrow> cell" where
  "grid_at g ny nx =
     (if 0 \<le> ny \<and> nat ny < length g then
        (if 0 \<le> nx \<and> nat nx < length (g ! nat ny) then g ! nat ny ! nat nx else None)
      else None)"

text \<open>The inner loop of \<open>collision\<close> over the cells \<open>x, x+1, ...\<close> of row \<open>y\<close>.\<close>

fun collision_row :: "grid \<Rightarrow> piece \<Rightarrow> int \<Rightarrow> int \<Rightarrow> nat list \<Rightarrow> nat \<Rightarrow> nat \<Rightarrow> bool" where
  "collision_row g p offX offY [] y x = False"
| "collision_row g p offX offY (v # vs) y x =
     (if v = 0 then collision_row g p offX offY vs y (x + 1)
      else
        (let nx = px p + int x + offX;
             ny = py p + int y + offY
         in if nx < 0 \<or> nx \<ge> int COLS \<or> ny \<ge> int ROWS then True
            else if ny \<ge> 0 \<and> grid_at g ny nx \<noteq> None then True
            else collision_row g p offX offY vs y (x + 1)))"

text \<open>The outer loop over the rows \<open>y, y+1, ...\<close>; a \<open>return true\<close> of the inner loop ends it.\<close>

fun collision_rows :: "grid \<Rightarrow> piece \<Rightarrow> int \<Rightarrow> int \<Rightarrow> matrix \<Rightarrow> nat \<Rightarrow> bool" where
  "collision_rows g p offX offY [] y = False"
| "collision_rows g p offX offY (row # rows) y =
     (if collision_row g p offX offY row y 0 then True
      else collision_rows g p offX offY rows (y + 1))"

definition collision :: "grid \<Rightarrow> piece \<Rightarrow> int \<Rightarrow> int \<Rightarrow> matrix \<Rightarrow> bool" where
  "collision g p offX offY mat = collision_rows g p offX offY mat 0"

text \<open>
  \<open>a[i][j] = v\<close> on an array of arrays: a missing row raises, a missing cell would grow
  the row.
\<close>

definition write2d :: "'a list list \<Rightarrow> int \<Rightarrow> int \<Rightarrow> 'a \<Rightarrow> error + 'a list list" where
  "write2d a i j v =
     (if 0 \<le> i \<and> nat i < length a then
        (if 0 \<le> j \<and> nat j < length (a ! nat i)
         then Inr (a[nat i := (a ! nat i)[nat j := v]])
         else Inl ArrayGrows)
      else Inl TypeError)"

text \<open>\<open>row.forEach((v, x) => ...)\<close> of \<open>merge\<close>, from column \<open>x\<close> on.\<close>

fun merge_row :: "grid \<Rightarrow> piece \<Rightarrow> nat list \<Rightarrow> nat \<Rightarrow> nat \<Rightarrow> error + grid" where
  "merge_row g p [] y x = Inr g"
| "merge_row g p (v # vs) y x =
     (if v \<noteq> 0 \<and> py p + int y \<ge> 0 then
        (case write2d g (py p + int y) (px p + int x) (Some (ptype p)) of
           Inl e \<Rightarrow> Inl e
         | Inr g' \<Rightarrow> merge_row g' p vs y (x + 1))
      else merge_row g p vs y (x + 1))"

text \<open>\<open>piece.matrix.forEach((row, y) => ...)\<close>, from row \<open>y\<close> on.\<close>

fun merge_rows :: "grid \<Rightarrow> piece \<Rightarrow> matrix \<Rightarrow> nat \<Rightarrow> error + grid" where
  "merge_rows g p [] y = Inr g"
| "merge_rows g p (row # rows) y =
     (case merge_row g p row y 0 of
        Inl e \<Rightarrow> Inl e
      | Inr g' \<Rightarrow> merge_rows g' p rows (y + 1))"

text \<open>\<open>merge\<close> marks the piece locked and writes its kind; it returns the piece and the grid.\<close>

definition merge :: "grid \<Rightarrow> piece \<Rightarrow> error + (piece \<times> grid)" where
  "merge g p =
     (let p' = p\<lparr>locked := True\<rparr>
      in case merge_rows g p' (matrix p') 0 of
           Inl e \<Rightarrow> Inl e
         | Inr g' \<Rightarrow> Inr (p', g'))"

section \<open>Rotation: matrices and kick tables\<close>

text \<open>
  \<open>rotateMatrix(m, dir)\<close>. The result starts as \<open>m.length\<close> rows of \<open>m[0].length\<close> zeros
  (\<open>m[0]\<close> is only read when \<open>m\<close> has a row), and each cell of \<open>m\<close> is written to its
  rotated place.
\<close>

definition width0 :: "matrix \<Rightarrow> nat" where
  "width0 m = (case m of [] \<Rightarrow> 0 | r # _ \<Rightarrow> length r)"

fun rotate_row :: "matrix \<Rightarrow> nat \<Rightarrow> nat \<Rightarrow> int \<Rightarrow> nat list \<Rightarrow> nat \<Rightarrow> nat \<Rightarrow> error + matrix" where
  "rotate_row res N W dir [] y x = Inr res"
| "rotate_row res N W dir (v # vs) y x =
     (case (if dir > 0 then write2d res (int x) (int N - 1 - int y) v
            else write2d res (int W - 1 - int x) (int y) v) of
        Inl e \<Rightarrow> Inl e
      | Inr res' \<Rightarrow> rotate_row res' N W dir vs y (x + 1))"

fun rotate_rows :: "matrix \<Rightarrow> nat \<Rightarrow> nat \<Rightarrow> int \<Rightarrow> matrix \<Rightarrow> nat \<Rightarrow> error + matrix" where
  "rotate_rows res N W dir [] y = Inr res"
| "rotate_rows res N W dir (row # rows) y =
     (case rotate_row res N W dir row y 0 of
        Inl e \<Rightarrow> Inl e
      | Inr res' \<Rightarrow> rotate_rows res' N W dir rows (y + 1))"

definition rotateMatrix :: "matrix \<Rightarrow> int \<Rightarrow> error + matrix" where
  "rotateMatrix m dir =
     (let N = length m;
          res = replicate N (replicate (width0 m) 0)
      in rotate_rows res N (width0 m) dir m 0)"

text \<open>The two kick tables, keyed by the string \<open>from>to\<close>, in source order.\<close>

definition KICKS_default :: "(string \<times> (int \<times> int) list) list" where
  "KICKS_default =
    [(''0>1'', [(0,0),(-1,0),(-1, 1),(0,-2),(-1,-2)]),
     (''1>0'', [(0,0),( 1,0),( 1,-1),(0, 2),( 1, 2)]),
     (''1>2'', [(0,0),( 1,0),( 1,-1),(0, 2),( 1, 2)]),
     (''2>1'', [(0,0),(-1,0),(-1, 1),(0,-2),(-1,-2)]),
     (''2>3'', [(0,0),( 1,0),( 1, 1),(0,-2),( 1,-2)]),
     (''3>2'', [(0,0),(-1,0),(-1,-1),(0, 2),(-1, 2)]),
     (''3>0'', [(0,0),(-1,0),(-1,-1),(0, 2),(-1, 2)]),
     (''0>3'', [(0,0),( 1,0),( 1, 1),(0,-2),( 1,-2)])]"

definition KICKS_I :: "(string \<times> (int \<times> int) list) list" where
  "KICKS_I =
    [(''0>1'', [(0,0),(-2,0),( 1,0),(-2,-1),( 1, 2)]),
     (''1>0'', [(0,0),( 2,0),(-1,0),( 2, 1),(-1,-2)]),
     (''1>2'', [(0,0),(-1,0),( 2,0),(-1, 2),( 2,-1)]),
     (''2>1'', [(0,0),( 1,0),(-2,0),( 1,-2),(-2, 1)]),
     (''2>3'', [(0,0),( 2,0),(-1,0),( 2, 1),(-1,-2)]),
     (''3>2'', [(0,0),(-2,0),( 1,0),(-2,-1),( 1, 2)]),
     (''3>0'', [(0,0),( 1,0),(-2,0),( 1,-2),(-2, 1)]),
     (''0>3'', [(0,0),(-1,0),( 2,0),(-1, 2),( 2,-1)])]"

text \<open>The decimal text of a number, as the template literal prints it.\<close>

definition digit_char :: "nat \<Rightarrow> char" where
  "digit_char d = ''0123456789'' ! d"

fun num_str :: "nat \<Rightarrow> string" where
  "num_str n = (if n < 10 then [digit_char n] else num_str (n div 10) @ [digit_char (n mod 10)])"

declare num_str.simps [simp del]

definition kick_key :: "nat \<Rightarrow> nat \<Rightarrow> string" where
  "kick_key from to = num_str from @ ''>'' @ num_str to"

text \<open>\<open>(type === 'I' ? KICKS.I : KICKS.default)[key] || [[0,0]]\<close>\<close>

definition kick_table :: "kind \<Rightarrow> string \<Rightarrow> (int \<times> int) list" where
  "kick_table t key =
     (case map_of (if t = KI then KICKS_I else KICKS_default) key of
        None \<Rightarrow> [(0, 0)]
      | Some tab \<Rightarrow> tab)"

section \<open>Bag\<close>

text \<open>
  The bag is its pool and the source of random numbers: \<open>rnd 0\<close> is the value of the next
  \<open>Math.random()\<close> call, a real number with \<open>0 \<le> rnd 0 < 1\<close>.
\<close>

record bag =
  pool :: "kind list"
  rnd :: "nat \<Rightarrow> real"

definition Math_random :: "(nat \<Rightarrow> real) \<Rightarrow> real \<times> (nat \<Rightarrow> real)" where
  "Math_random r = (r 0, \<lambda>n. r (Suc n))"

text \<open>
  The Fisher-Yates loop \<open>for (i = ...; i > 0; i--)\<close>, entered with the value of \<open>i\<close>.
  Since the random number is below 1, \<open>j \<le> i\<close> and both indices of the swap are cells of
  the pool.
\<close>

fun shuffle :: "nat \<Rightarrow> kind list \<Rightarrow> (nat \<Rightarrow> real) \<Rightarrow> kind list \<times> (nat \<Rightarrow> real)" where
  "shuffle 0 p r = (p, r)"
| "shuffle (Suc i) p r =
     (let (u, r') = Math_random r;
          j = nat \<lfloor>u * real (Suc i + 1)\<rfloor>;
          a = p ! j;
          b = p ! Suc i
      in shuffle i (p[Suc i := a, j := b]) r')"

text \<open>\<open>pool.pop()\<close>: the last element, or \<open>undefined\<close> (\<open>None\<close>) for an empty array.\<close>

definition pop :: "'a list \<Rightarrow> 'a option \<times> 'a list" where
  "pop xs = (if xs = [] then (None, []) else (Some (last xs), butlast xs))"

text \<open>The array literal of the refill, \<open>['S','Z','L','J','T','O','I']\<close>.\<close>

definition all_kinds :: "kind list" where
  "all_kinds = [KS, KZ, KL, KJ, KT, KO, KI]"

definition Bag_next :: "bag \<Rightarrow> kind option \<times> bag" where
  "Bag_next b =
     (let b1 = (if length (pool b) = 0 then
                  (let p0 = all_kinds;
                       (p, r) = shuffle (length p0 - 1) p0 (rnd b)
                   in b\<lparr>pool := p, rnd := r\<rparr>)
                else b);
          (k, p') = pop (pool b1)
      in (k, b1\<lparr>pool := p'\<rparr>))"

text \<open>\<open>n\<close> calls of \<open>next()\<close> in a row: the values returned, in order, and the bag left.\<close>

fun draws :: "nat \<Rightarrow> bag \<Rightarrow> kind option list \<times> bag" where
  "draws 0 b = ([], b)"
| "draws (Suc n) b =
     (let (k, b') = Bag_next b;
          (ks, b'') = draws n b'
      in (k # ks, b''))"

section \<open>Game\<close>

record game =
  board :: grid
  bag :: bag
  current :: piece
  nextQ :: "piece list"
  hold :: "piece option"
  canHold :: bool
  score :: int
  lines :: int
  level :: int
  dropInterval :: int
  elapsed :: real
  paused :: bool
  over :: bool
  lockDelay :: real
  lockTimer :: real
  grounded :: bool
  clearedRows :: "nat list"
  flashMs :: real
  shake :: real
  dasTimer :: real
  arrTimer :: real
  lastDir :: int

definition DAS :: real where "DAS = 150"
definition ARR :: real where "ARR = 40"

text \<open>
  \<open>spawnIfNeeded\<close>. \<open>nextQ.shift()\<close> of an empty queue gives \<open>undefined\<close>, and the assignment
  \<open>this.current.x = 3\<close> raises. A bag that handed back \<open>undefined\<close> would put a piece without
  a matrix into the queue, whose first use raises.
\<close>

definition spawnIfNeeded :: "game \<Rightarrow> error + game" where
  "spawnIfNeeded g =
     (if locked (current g) then
        (case nextQ g of
           [] \<Rightarrow> Inl TypeError
         | p # q \<Rightarrow>
             (let c = p\<lparr>px := 3, py := - int (length (matrix p)) + 1, rot := 0, locked := False\<rparr>;
                  (k, b) = Bag_next (bag g)
              in case k of
                   None \<Rightarrow> Inl TypeError
                 | Some t \<Rightarrow>
                     (let g1 = g\<lparr>current := c, nextQ := q @ [new_Piece t], bag := b,
                                 canHold := True, lockTimer := 0, grounded := False\<rparr>
                      in Inr (if collision (board g1) (current g1) 0 0 (matrix (current g1))
                              then g1\<lparr>over := True, paused := True\<rparr>
                              else g1))))
      else Inr g)"

definition setLevelByLines :: "game \<Rightarrow> game" where
  "setLevelByLines g =
     (let g1 = g\<lparr>level := max 1 (lines g div 10 + 1)\<rparr>
      in g1\<lparr>dropInterval := max 80 (1000 - (level g1 - 1) * 70)\<rparr>)"

text \<open>The loop of \<open>rotate\<close> over the kick offsets that are left.\<close>

fun rotate_kicks :: "game \<Rightarrow> matrix \<Rightarrow> nat \<Rightarrow> (int \<times> int) list \<Rightarrow> retval \<times> game" where
  "rotate_kicks g rotated to [] = (JSBool False, g)"
| "rotate_kicks g rotated to ((dx, dy) # rest) =
     (if \<not> collision (board g) (current g) dx dy rotated then
        (let c = (current g)\<lparr>matrix := rotated\<rparr>;
             c = c\<lparr>px := px c + dx\<rparr>;
             c = c\<lparr>py := py c + dy\<rparr>;
             c = c\<lparr>rot := to\<rparr>;
             g1 = g\<lparr>current := c\<rparr>
         in (JSBool True,
             if \<not> collision (board g1) (current g1) 0 1 (matrix (current g1))
             then g1\<lparr>grounded := False, lockTimer := 0\<rparr>
             else g1))
      else rotate_kicks g rotated to rest)"

definition rotate :: "game \<Rightarrow> int \<Rightarrow> error + (retval \<times> game)" where
  "rotate g dir =
     (if ptype (current g) = KO then Inr (JSUndefined, g)
      else
        (let from = rot (current g);
             to = (from + (if dir > 0 then 1 else 3)) mod 4
         in case rotateMatrix (matrix (current g)) dir of
              Inl e \<Rightarrow> Inl e
            | Inr rotated \<Rightarrow>
                (let key = kick_key from to;
                     table = kick_table (ptype (current g)) key
                 in Inr (rotate_kicks g rotated to table))))"

definition move :: "game \<Rightarrow> int \<Rightarrow> game" where
  "move g dx =
     (if \<not> collision (board g) (current g) dx 0 (matrix (current g)) then
        (let g1 = g\<lparr>current := (current g)\<lparr>px := px (current g) + dx\<rparr>\<rparr>
         in if \<not> collision (board g1) (current g1) 0 1 (matrix (current g1))
            then g1\<lparr>grounded := False, lockTimer := 0\<rparr>
            else g1)
      else g)"

definition softDrop :: "game \<Rightarrow> bool \<times> game" where
  "softDrop g =
     (if \<not> collision (board g) (current g) 0 1 (matrix (current g)) then
        (let g1 = g\<lparr>current := (current g)\<lparr>py := py (current g) + 1\<rparr>\<rparr>;
             g2 = g1\<lparr>score := score g1 + 1\<rparr>
         in (True, g2\<lparr>grounded := False, lockTimer := 0\<rparr>))
      else (False, g\<lparr>grounded := True\<rparr>))"

text \<open>\<open>[0, 100, 300, 500, 800][cleared] ?? 0\<close>\<close>

definition line_base :: "nat \<Rightarrow> int" where
  "line_base cleared = (if cleared < 5 then [0, 100, 300, 500, 800] ! cleared else 0)"

definition lockDown :: "game \<Rightarrow> error + game" where
  "lockDown g =
     (case merge (board g) (current g) of
        Inl e \<Rightarrow> Inl e
      | Inr (c1, b1) \<Rightarrow>
          (case clearLines b1 of
             Inl e \<Rightarrow> Inl e
           | Inr (b2, cleared) \<Rightarrow>
               (let g1 = g\<lparr>current := c1, board := b2\<rparr>;
                    g2 = (if cleared \<noteq> 0 then
                            (let base = line_base cleared;
                                 h = g1\<lparr>score := score g1 + base * level g1\<rparr>;
                                 h = h\<lparr>lines := lines h + int cleared\<rparr>;
                                 h = setLevelByLines h
                             in h\<lparr>clearedRows := [], flashMs := 220,
                                  shake := min 0.6 (0.25 + real cleared * 0.12)\<rparr>)
                          else g1\<lparr>shake := max (shake g1) 0.18\<rparr>);
                    g3 = g2\<lparr>current := (current g2)\<lparr>locked := True\<rparr>\<rparr>
                in case spawnIfNeeded g3 of
                     Inl e \<Rightarrow> Inl e
                   | Inr g4 \<Rightarrow> Inr (g4\<lparr>lockTimer := 0, grounded := False\<rparr>))))"

text \<open>
  The loop of \<open>hardDrop\<close>: \<open>while (!collision(current, 0, 1)) { current.y++; dist++; }\<close>.
  It runs for ever on a matrix without a filled cell, so the result is an option.
\<close>

partial_function (option) hardDrop_loop :: "grid \<Rightarrow> piece \<Rightarrow> nat \<Rightarrow> (piece \<times> nat) option" where
  "hardDrop_loop b c fallen =
     (if \<not> collision b c 0 1 (matrix c)
      then hardDrop_loop b (c\<lparr>py := py c + 1\<rparr>) (fallen + 1)
      else Some (c, fallen))"

definition hardDrop :: "game \<Rightarrow> (error + game) option" where
  "hardDrop g =
     (case hardDrop_loop (board g) (current g) 0 of
        None \<Rightarrow> None
      | Some (c, fallen) \<Rightarrow>
          Some (lockDown (g\<lparr>current := c, score := score g + int fallen * 2\<rparr>)))"

text \<open>The natural fall of \<open>update\<close>: the block under the comment of line 315.\<close>

definition update_gravity :: "game \<Rightarrow> game" where
  "update_gravity g =
     (if elapsed g \<ge> real_of_int (dropInterval g) then
        (let g1 = g\<lparr>elapsed := 0\<rparr>;
             (moved, g2) = softDrop g1
         in if \<not> moved then g2\<lparr>grounded := True\<rparr> else g2)
      else g)"

text \<open>\<open>while (this.arrTimer >= ARR) { this.move(dir); this.arrTimer -= ARR; }\<close>\<close>

function arr_loop :: "game \<Rightarrow> int \<Rightarrow> game" where
  "arr_loop g dir =
     (if arrTimer g \<ge> ARR then
        (let g1 = move g dir
         in arr_loop (g1\<lparr>arrTimer := arrTimer g1 - ARR\<rparr>) dir)
      else g)"
  by pat_completeness auto
termination
proof (relation "measure (\<lambda>(g, dir). nat \<lfloor>arrTimer g / ARR\<rfloor>)", goal_cases)
  case 1
  show ?case by simp
next
  case (2 g dir g1)
  have same: "arrTimer (move g dir) = arrTimer g"
    by (simp add: move_def Let_def)
  have "\<lfloor>(arrTimer g - ARR) / ARR\<rfloor> = \<lfloor>arrTimer g / ARR\<rfloor> - 1"
    by (simp add: ARR_def diff_divide_distrib)
  moreover have "1 \<le> \<lfloor>arrTimer g / ARR\<rfloor>"
    using 2 by (simp add: ARR_def le_floor_iff)
  ultimately show ?case
    using 2 same by simp
qed

text \<open>The auto-repeat block of \<open>update\<close>; \<open>left\<close> and \<open>right\<close> are the flags of \<open>INPUT\<close>.\<close>

definition update_das :: "game \<Rightarrow> bool \<Rightarrow> bool \<Rightarrow> real \<Rightarrow> game" where
  "update_das g left right delta =
     (let dir = (if left then - 1 else 0) + (if right then 1 else 0)
      in if dir \<noteq> 0 then
           (if lastDir g \<noteq> dir then
              move (g\<lparr>lastDir := dir, dasTimer := 0, arrTimer := 0\<rparr>) dir
            else
              (let g1 = g\<lparr>dasTimer := dasTimer g + delta\<rparr>
               in if dasTimer g1 \<ge> DAS
                  then arr_loop (g1\<lparr>arrTimer := arrTimer g1 + delta\<rparr>) dir
                  else g1))
         else g\<lparr>lastDir := 0, dasTimer := 0, arrTimer := 0\<rparr>)"

text \<open>The lock-delay block of \<open>update\<close>.\<close>

definition update_lock :: "game \<Rightarrow> real \<Rightarrow> error + game" where
  "update_lock g delta =
     (if grounded g then
        (let g1 = g\<lparr>lockTimer := lockTimer g + delta\<rparr>
         in if \<not> collision (board g1) (current g1) 0 1 (matrix (current g1))
            then Inr (g1\<lparr>grounded := False, lockTimer := 0\<rparr>)
            else if lockTimer g1 \<ge> lockDelay g1
            then lockDown (g1\<lparr>lockTimer := 0, grounded := False\<rparr>)
            else Inr g1)
      else Inr g)"

text \<open>The first statements of \<open>update\<close>: the elapsed time and the decay of flash and shake.\<close>

definition update_timers :: "game \<Rightarrow> real \<Rightarrow> game" where
  "update_timers g delta =
     (let g1 = g\<lparr>elapsed := elapsed g + delta\<rparr>;
          g2 = (if flashMs g1 > 0 then g1\<lparr>flashMs := max 0 (flashMs g1 - delta)\<rparr> else g1)
      in if shake g2 > 0 then g2\<lparr>shake := max 0 (shake g2 - delta * 0.0035)\<rparr> else g2)"

definition update :: "game \<Rightarrow> bool \<Rightarrow> bool \<Rightarrow> real \<Rightarrow> error + game" where
  "update g left right delta =
     (if paused g \<or> over g then Inr g
      else
        (let g3 = update_timers g delta;
             g4 = update_gravity g3;
             g5 = update_das g4 left right delta
         in update_lock g5 delta))"

section \<open>Predicates of the statements\<close>

text \<open>
  What \<open>collision\<close> tests for the cell \<open>(x, y)\<close> of the matrix, written once: the cell lands
  left or right of the board, on or below the floor, or, from row 0 down, on an occupied cell.
\<close>

definition cell_hit :: "grid \<Rightarrow> piece \<Rightarrow> int \<Rightarrow> int \<Rightarrow> nat \<Rightarrow> nat \<Rightarrow> bool" where
  "cell_hit g p offX offY y x =
     (let nx = px p + int x + offX; ny = py p + int y + offY
      in nx < 0 \<or> nx \<ge> 10 \<or> ny \<ge> 20 \<or> (ny \<ge> 0 \<and> grid_at g ny nx \<noteq> None))"

text \<open>The cell \<open>(x, y)\<close> of the piece's matrix lies within the columns and above the floor.\<close>

definition in_bounds :: "piece \<Rightarrow> nat \<Rightarrow> nat \<Rightarrow> bool" where
  "in_bounds p y x \<longleftrightarrow> 0 \<le> px p + int x \<and> px p + int x < 10 \<and> py p + int y < 20"

text \<open>A grid of \<open>ROWS\<close> rows of \<open>COLS\<close> cells.\<close>

definition wf_grid :: "grid \<Rightarrow> bool" where
  "wf_grid g \<longleftrightarrow> length g = ROWS \<and> list_all (\<lambda>row. length row = COLS) g"

text \<open>
  A sequence of calls of \<open>merge\<close> and \<open>clearLines\<close> on one board, and the condition that
  every piece handed to \<open>merge\<close> is free of collision on the grid it is merged into.
\<close>

datatype board_call = Merge piece | ClearLines

fun board_calls :: "grid \<Rightarrow> board_call list \<Rightarrow> error + grid" where
  "board_calls g [] = Inr g"
| "board_calls g (Merge p # cs) =
     (case merge g p of Inl e \<Rightarrow> Inl e | Inr (p', g') \<Rightarrow> board_calls g' cs)"
| "board_calls g (ClearLines # cs) =
     (case clearLines g of Inl e \<Rightarrow> Inl e | Inr (g', n) \<Rightarrow> board_calls g' cs)"

fun calls_free :: "grid \<Rightarrow> board_call list \<Rightarrow> bool" where
  "calls_free g [] = True"
| "calls_free g (Merge p # cs) =
     (\<not> collision g p 0 0 (matrix p) \<and>
      (case merge g p of Inl e \<Rightarrow> True | Inr (p', g') \<Rightarrow> calls_free g' cs))"
| "calls_free g (ClearLines # cs) =
     (case clearLines g of Inl e \<Rightarrow> True | Inr (g', n) \<Rightarrow> calls_free g' cs)"

text \<open>The contract of \<open>Math.random()\<close>: every value is at least 0 and below 1.\<close>

definition unit_rnd :: "(nat \<Rightarrow> real) \<Rightarrow> bool" where
  "unit_rnd r \<longleftrightarrow> (\<forall>n. 0 \<le> r n \<and> r n < 1)"

text \<open>A matrix with as many cells in each row as it has rows, as every piece's matrix is.\<close>

definition square :: "matrix \<Rightarrow> bool" where
  "square m \<longleftrightarrow> list_all (\<lambda>row. length row = length m) m"

text \<open>A matrix of \<open>N\<close> rows of \<open>N\<close> cells.\<close>

definition dims :: "nat \<Rightarrow> matrix \<Rightarrow> bool" where
  "dims N res \<longleftrightarrow> length res = N \<and> list_all (\<lambda>row. length row = N) res"

text \<open>The matrix has a filled cell.\<close>

definition has_filled :: "matrix \<Rightarrow> bool" where
  "has_filled m \<longleftrightarrow> list_ex (\<lambda>row. list_ex (\<lambda>v. v \<noteq> 0) row) m"

text \<open>
  While \<open>rotateMatrix\<close> runs, the cells of the source are copied in reading order. The
  cell \<open>(a, b)\<close> of the result comes from the cell \<open>(src_row, src_col)\<close> of the source;
  \<open>done_cell y x sy sx\<close> says that the source cell \<open>(sy, sx)\<close> lies before \<open>(y, x)\<close> in reading
  order, and \<open>partly_rotated\<close> that every cell whose source is done already holds its value.
\<close>

definition done_cell :: "nat \<Rightarrow> nat \<Rightarrow> nat \<Rightarrow> nat \<Rightarrow> bool" where
  "done_cell y x sy sx \<longleftrightarrow> sy < y \<or> (sy = y \<and> sx < x)"

definition src_row :: "int \<Rightarrow> nat \<Rightarrow> nat \<Rightarrow> nat \<Rightarrow> nat" where
  "src_row dir N a b = (if dir > 0 then N - 1 - b else b)"

definition src_col :: "int \<Rightarrow> nat \<Rightarrow> nat \<Rightarrow> nat \<Rightarrow> nat" where
  "src_col dir N a b = (if dir > 0 then a else N - 1 - a)"

definition partly_rotated :: "matrix \<Rightarrow> int \<Rightarrow> nat \<Rightarrow> nat \<Rightarrow> matrix \<Rightarrow> bool" where
  "partly_rotated m dir y x res \<longleftrightarrow>
     dims (length m) res \<and>
     (\<forall>a<length m. \<forall>b<length m.
        done_cell y x (src_row dir (length m) a b) (src_col dir (length m) a b) \<longrightarrow>
        res ! a ! b = m ! src_row dir (length m) a b ! src_col dir (length m) a b)"

text \<open>
  The kick offsets of a transition, looked up by the pair of orientations instead of the
  string key: the entries of \<open>KICKS.I\<close> for kind I and of \<open>KICKS.default\<close> otherwise, each
  under the orientations its key names.
\<close>

definition kicks_of :: "kind \<Rightarrow> nat \<Rightarrow> nat \<Rightarrow> (int \<times> int) list" where
  "kicks_of t from to =
     (if t = KI then
        (if from = 0 \<and> to = 1 then [(0,0),(-2,0),( 1,0),(-2,-1),( 1, 2)]
         else if from = 1 \<and> to = 0 then [(0,0),( 2,0),(-1,0),( 2, 1),(-1,-2)]
         else if from = 1 \<and> to = 2 then [(0,0),(-1,0),( 2,0),(-1, 2),( 2,-1)]
         else if from = 2 \<and> to = 1 then [(0,0),( 1,0),(-2,0),( 1,-2),(-2, 1)]
         else if from = 2 \<and> to = 3 then [(0,0),( 2,0),(-1,0),( 2, 1),(-1,-2)]
         else if from = 3 \<and> to = 2 then [(0,0),(-2,0),( 1,0),(-2,-1),( 1, 2)]
         else if from = 3 \<and> to = 0 then [(0,0),( 1,0),(-2,0),( 1,-2),(-2, 1)]
         else if from = 0 \<and> to = 3 then [(0,0),(-1,0),( 2,0),(-1, 2),( 2,-1)]
         else [])
      else
        (if from = 0 \<and> to = 1 then [(0,0),(-1,0),(-1, 1),(0,-2),(-1,-2)]
         else if from = 1 \<and> to = 0 then [(0,0),( 1,0),( 1,-1),(0, 2),( 1, 2)]
         else if from = 1 \<and> to = 2 then [(0,0),( 1,0),( 1,-1),(0, 2),( 1, 2)]
         else if from = 2 \<and> to = 1 then [(0,0),(-1,0),(-1, 1),(0,-2),(-1,-2)]
         else if from = 2 \<and> to = 3 then [(0,0),( 1,0),( 1, 1),(0,-2),( 1,-2)]
         else if from = 3 \<and> to = 2 then [(0,0),(-1,0),(-1,-1),(0, 2),(-1, 2)]
         else if from = 3 \<and> to = 0 then [(0,0),(-1,0),(-1,-1),(0, 2),(-1, 2)]
         else if from = 0 \<and> to = 3 then [(0,0),( 1,0),( 1, 1),(0,-2),( 1,-2)]
         else []))"

section \<open>Example states\<close>


text \<open>A grid whose cells are all occupied.\<close>

definition full_grid :: grid where
  "full_grid = replicate 20 (replicate 10 (Some KI))"

text \<open>Two pieces dropped on the floor of the empty board, with a \<open>clearLines\<close> in between.\<close>

definition demo_calls :: "board_call list" where
  "demo_calls =
     [Merge ((new_Piece KO)\<lparr>py := 18\<rparr>), ClearLines, Merge ((new_Piece KI)\<lparr>py := 16\<rparr>)]"

text \<open>An empty bag whose random numbers are all 0.\<close>

definition zero_bag :: bag where
  "zero_bag = \<lparr>pool = [], rnd = (\<lambda>n. 0)\<rparr>"

text \<open>
  A game at the start of play: the empty board, the current piece of kind \<open>k\<close> as the
  constructor leaves it, two pieces queued, and the field initialisers of \<open>Game\<close>.
\<close>

definition start_game :: "kind \<Rightarrow> game" where
  "start_game k =
     \<lparr> board = new_grid,
       bag = \<lparr> pool = [KZ, KL, KJ, KS], rnd = (\<lambda>n. 0) \<rparr>,
       current = new_Piece k,
       nextQ = [new_Piece KT, new_Piece KI],
       hold = None, canHold = True,
       score = 0, lines = 0, level = 1,
       dropInterval = 1000,
       elapsed = 0, paused = False, over = False,
       lockDelay = 500,
       lockTimer = 0,
       grounded = False,
       clearedRows = [],
       flashMs = 0,
       shake = 0,
       dasTimer = 0, arrTimer = 0, lastDir = 0 \<rparr>"

text \<open>
  A game whose bottom row lacks the cells of columns 3 and 4, with the O piece resting on
  the floor above that gap.
\<close>

definition gap_game :: game where
  "gap_game =
     (start_game KO)
       \<lparr> board := replicate 19 (replicate 10 None) @
                   [[Some KI, Some KI, Some KI, None, None,
                     Some KI, Some KI, Some KI, Some KI, Some KI]],
         current := (new_Piece KO)\<lparr>py := 18\<rparr> \<rparr>"

text \<open>
  Three games on the empty board: a T piece in orientation 1 against the left wall, an I
  piece lying on the floor, and an I piece in orientation 1 against the left wall.
\<close>

definition wall_game :: game where
  "wall_game =
     (start_game KT)
       \<lparr> current := \<lparr> ptype = KT, matrix = [[0,1,0],[0,1,1],[0,1,0]],
                      px = - 1, py = 5, rot = 1, locked = False \<rparr> \<rparr>"

definition floor_game :: game where
  "floor_game = (start_game KI) \<lparr> current := (new_Piece KI)\<lparr>py := 18\<rparr> \<rparr>"

definition I_wall_game :: game where
  "I_wall_game =
     (start_game KI)
       \<lparr> current := \<lparr> ptype = KI, matrix = [[0,0,1,0],[0,0,1,0],[0,0,1,0],[0,0,1,0]],
                      px = - 2, py = 5, rot = 1, locked = False \<rparr> \<rparr>"

section \<open>Line clearing\<close>

lemma not_every_empty_row: "\<not> every (replicate COLS None)"
  by (simp add: every_def COLS_def list_all_iff)

text \<open>
  The loop from index \<open>y\<close> down: the rows up to \<open>y\<close> lose their full rows, as many empty
  rows are put on top, and the rows below \<open>y\<close> stay.
\<close>

lemma clearLines_loop_eq:
  "y < int (length g) \<Longrightarrow> - 1 \<le> y \<Longrightarrow>
   clearLines_loop g y c =
     Inr (replicate (length (filter every (take (nat (y + 1)) g))) (replicate COLS None)
            @ filter (\<lambda>r. \<not> every r) (take (nat (y + 1)) g) @ drop (nat (y + 1)) g,
          c + length (filter every (take (nat (y + 1)) g)))"
proof (induction g y c rule: clearLines_loop.induct)
  case (1 g y cleared)
  show ?case
  proof (cases "y \<ge> 0")
    case False
    with 1 have "y = - 1" by simp
    then show ?thesis by (simp add: clearLines_loop.simps[of g "-1"])
  next
    case True
    with 1 have lt: "nat y < length g" by simp
    have suc: "nat (y + 1) = Suc (nat y)" using True by simp
    have tk: "take (Suc (nat y)) g = take (nat y) g @ [g ! nat y]"
      using lt by (simp add: take_Suc_conv_app_nth)
    show ?thesis
    proof (cases "every (g ! nat y)")
      case full: True
      let ?g' = "unshift (replicate COLS None) (splice1 g (nat y))"
      have len: "length ?g' = length g" using lt by (simp add: unshift_def splice1_def)
      have tk': "take (Suc (nat y)) ?g' = replicate COLS None # take (nat y) g"
        using lt by (simp add: unshift_def splice1_def)
      have dr': "drop (Suc (nat y)) ?g' = drop (Suc (nat y)) g"
        using lt by (simp add: unshift_def splice1_def)
      have IH: "clearLines_loop ?g' (y + 1 - 1) (cleared + 1) =
         Inr (replicate (length (filter every (take (nat (y + 1 - 1 + 1)) ?g'))) (replicate COLS None)
            @ filter (\<lambda>r. \<not> every r) (take (nat (y + 1 - 1 + 1)) ?g') @ drop (nat (y + 1 - 1 + 1)) ?g',
          cleared + 1 + length (filter every (take (nat (y + 1 - 1 + 1)) ?g')))"
        using 1(1)[OF True lt full] 1(3,4) len by simp
      show ?thesis
        apply (subst clearLines_loop.simps)
        apply (simp only: True lt full if_True IH)
        apply (simp add: suc tk tk' dr' full not_every_empty_row replicate_append_same)
        done
    next
      case nf: False
      have IH: "clearLines_loop g (y - 1) cleared =
         Inr (replicate (length (filter every (take (nat (y - 1 + 1)) g))) (replicate COLS None)
            @ filter (\<lambda>r. \<not> every r) (take (nat (y - 1 + 1)) g) @ drop (nat (y - 1 + 1)) g,
          cleared + length (filter every (take (nat (y - 1 + 1)) g)))"
        using 1(2)[OF True lt nf] 1(3,4) True by simp
      show ?thesis
        apply (subst clearLines_loop.simps)
        apply (simp only: True lt nf if_True if_False IH)
        apply (simp add: suc tk nf Cons_nth_drop_Suc lt)
        done
    qed
  qed
qed

lemma clearLines_eq:
  "length g = ROWS \<Longrightarrow>
   clearLines g =
     Inr (replicate (length (filter every g)) (replicate COLS None) @ filter (\<lambda>r. \<not> every r) g,
          length (filter every g))"
  using clearLines_loop_eq[of "int ROWS - 1" g 0]
  by (simp add: clearLines_def ROWS_def)



section \<open>Collision\<close>

lemma wf_new_grid: "wf_grid new_grid"
  by (simp add: wf_grid_def new_grid_def list_all_iff)

lemma collision_row_Cons:
  "collision_row g p offX offY (v # vs) y x0 \<longleftrightarrow>
     (v \<noteq> 0 \<and> cell_hit g p offX offY y x0) \<or> collision_row g p offX offY vs y (Suc x0)"
  by (auto simp: cell_hit_def Let_def COLS_def ROWS_def)

lemma collision_row_iff:
  "collision_row g p offX offY vs y x0 \<longleftrightarrow>
     (\<exists>i<length vs. vs ! i \<noteq> 0 \<and> cell_hit g p offX offY y (x0 + i))"
proof (induction vs arbitrary: x0)
  case Nil
  show ?case by simp
next
  case (Cons v vs)
  show ?case
    unfolding collision_row_Cons Cons
    by (simp add: Ex_less_Suc2)
qed

lemma collision_rows_iff:
  "collision_rows g p offX offY rows y0 \<longleftrightarrow>
     (\<exists>j<length rows. \<exists>i<length (rows ! j).
        rows ! j ! i \<noteq> 0 \<and> cell_hit g p offX offY (y0 + j) i)"
proof (induction rows arbitrary: y0)
  case Nil
  show ?case by simp
next
  case (Cons r rows)
  have "collision_rows g p offX offY (r # rows) y0 \<longleftrightarrow>
        collision_row g p offX offY r y0 0 \<or> collision_rows g p offX offY rows (Suc y0)"
    by simp
  then show ?case
    unfolding Cons collision_row_iff
    by (simp add: Ex_less_Suc2)
qed

lemma collision_cell_hit:
  "collision g p offX offY mat \<longleftrightarrow>
     (\<exists>y<length mat. \<exists>x<length (mat ! y). mat ! y ! x \<noteq> 0 \<and> cell_hit g p offX offY y x)"
  by (simp add: collision_def collision_rows_iff)

lemma cell_hit_read:
  "cell_hit g p offX offY y x \<longleftrightarrow>
     (px p + int x + offX < 0 \<or> px p + int x + offX \<ge> 10 \<or> py p + int y + offY \<ge> 20 \<or>
      (py p + int y + offY \<ge> 0 \<and> px p + int x + offX \<ge> 0 \<and>
       nat (py p + int y + offY) < length g \<and>
       nat (px p + int x + offX) < length (g ! nat (py p + int y + offY)) \<and>
       g ! nat (py p + int y + offY) ! nat (px p + int x + offX) \<noteq> None))"
  by (auto simp: cell_hit_def grid_at_def Let_def)

lemma cell_hit_wf:
  assumes "wf_grid g"
  shows "cell_hit g p offX offY y x \<longleftrightarrow>
     (px p + int x + offX < 0 \<or> px p + int x + offX \<ge> 10 \<or> py p + int y + offY \<ge> 20 \<or>
      (py p + int y + offY \<ge> 0 \<and>
       g ! nat (py p + int y + offY) ! nat (px p + int x + offX) \<noteq> None))"
proof -
  have len: "length g = 20" and rows: "\<And>i. i < 20 \<Longrightarrow> length (g ! i) = 10"
    using assms by (simp_all add: wf_grid_def ROWS_def COLS_def list_all_length)
  show ?thesis
    unfolding cell_hit_read len
    using rows[of "nat (py p + int y + offY)"] by auto
qed

text \<open>
  Claim C2. \<open>collision\<close> is true exactly when some filled cell of the matrix, at its absolute
  coordinates \<open>(px + x + offX, py + y + offY)\<close>, is left of column 0 or right of column 9, or
  at row 20 or below, or at a row from 0 on where the grid has that row and that cell and the
  cell is not empty. On a grid of 20 rows of 10 cells the last case is the plain read
  \<open>g ! ny ! nx\<close>. When every filled cell is above row 0, the grid plays no part: only the
  horizontal bounds can make the result true.
\<close>

theorem collision_iff:
  "(collision g p offX offY mat \<longleftrightarrow>
      (\<exists>y<length mat. \<exists>x<length (mat ! y). mat ! y ! x \<noteq> 0 \<and>
         (px p + int x + offX < 0 \<or> px p + int x + offX \<ge> 10 \<or> py p + int y + offY \<ge> 20 \<or>
          (py p + int y + offY \<ge> 0 \<and> px p + int x + offX \<ge> 0 \<and>
           nat (py p + int y + offY) < length g \<and>
           nat (px p + int x + offX) < length (g ! nat (py p + int y + offY)) \<and>
           g ! nat (py p + int y + offY) ! nat (px p + int x + offX) \<noteq> None))))
   \<and>
   (wf_grid g \<longrightarrow>
      (collision g p offX offY mat \<longleftrightarrow>
         (\<exists>y<length mat. \<exists>x<length (mat ! y). mat ! y ! x \<noteq> 0 \<and>
            (px p + int x + offX < 0 \<or> px p + int x + offX \<ge> 10 \<or>
             py p + int y + offY \<ge> 20 \<or>
             (py p + int y + offY \<ge> 0 \<and>
              g ! nat (py p + int y + offY) ! nat (px p + int x + offX) \<noteq> None)))))
   \<and>
   ((\<forall>y<length mat. \<forall>x<length (mat ! y). mat ! y ! x \<noteq> 0 \<longrightarrow> py p + int y + offY < 0) \<longrightarrow>
      (collision g p offX offY mat \<longleftrightarrow>
         (\<exists>y<length mat. \<exists>x<length (mat ! y). mat ! y ! x \<noteq> 0 \<and>
            (px p + int x + offX < 0 \<or> px p + int x + offX \<ge> 10))))"
proof (intro conjI impI)
  show "collision g p offX offY mat \<longleftrightarrow>
      (\<exists>y<length mat. \<exists>x<length (mat ! y). mat ! y ! x \<noteq> 0 \<and>
         (px p + int x + offX < 0 \<or> px p + int x + offX \<ge> 10 \<or> py p + int y + offY \<ge> 20 \<or>
          (py p + int y + offY \<ge> 0 \<and> px p + int x + offX \<ge> 0 \<and>
           nat (py p + int y + offY) < length g \<and>
           nat (px p + int x + offX) < length (g ! nat (py p + int y + offY)) \<and>
           g ! nat (py p + int y + offY) ! nat (px p + int x + offX) \<noteq> None)))"
    unfolding collision_cell_hit cell_hit_read ..
next
  assume "wf_grid g"
  then show "collision g p offX offY mat \<longleftrightarrow>
         (\<exists>y<length mat. \<exists>x<length (mat ! y). mat ! y ! x \<noteq> 0 \<and>
            (px p + int x + offX < 0 \<or> px p + int x + offX \<ge> 10 \<or>
             py p + int y + offY \<ge> 20 \<or>
             (py p + int y + offY \<ge> 0 \<and>
              g ! nat (py p + int y + offY) ! nat (px p + int x + offX) \<noteq> None)))"
    unfolding collision_cell_hit by (simp only: cell_hit_wf)
next
  assume "\<forall>y<length mat. \<forall>x<length (mat ! y). mat ! y ! x \<noteq> 0 \<longrightarrow> py p + int y + offY < 0"
  then show "collision g p offX offY mat \<longleftrightarrow>
         (\<exists>y<length mat. \<exists>x<length (mat ! y). mat ! y ! x \<noteq> 0 \<and>
            (px p + int x + offX < 0 \<or> px p + int x + offX \<ge> 10))"
    unfolding collision_cell_hit cell_hit_def Let_def by (intro iffI; fastforce)
qed

theorem collision_iff_witness:
  "wf_grid (board gap_game) \<and>
   board gap_game ! 19 ! 5 = Some KI \<and>
   \<not> collision (board gap_game) ((new_Piece KO)\<lparr>py := 18\<rparr>) 0 0 (TETROS KO) \<and>
   collision (board gap_game) ((new_Piece KO)\<lparr>py := 18\<rparr>) 1 0 (TETROS KO) \<and>
   \<not> collision new_grid ((new_Piece KO)\<lparr>py := 18\<rparr>) 0 0 (TETROS KO) \<and>
   collision new_grid ((new_Piece KO)\<lparr>py := 18\<rparr>) 0 1 (TETROS KO) \<and>
   length (TETROS KO) = 2 \<and>
   py ((new_Piece KO)\<lparr>py := - 2\<rparr>) + int 0 + 0 < 0 \<and>
   py ((new_Piece KO)\<lparr>py := - 2\<rparr>) + int 1 + 0 < 0 \<and>
   \<not> collision full_grid ((new_Piece KO)\<lparr>py := - 2\<rparr>) 0 0 (TETROS KO) \<and>
   collision full_grid ((new_Piece KO)\<lparr>py := - 2\<rparr>) 6 0 (TETROS KO)"
proof -
  have wf: "wf_grid (board gap_game)"
    by (simp add: gap_game_def start_game_def wf_grid_def ROWS_def COLS_def list_all_iff)
  have cell: "board gap_game ! 19 ! 5 = Some KI"
    by (simp add: gap_game_def start_game_def nth_append)
  have h: "\<forall>y<length (TETROS KO). \<forall>x<length (TETROS KO ! y). TETROS KO ! y ! x \<noteq> 0 \<longrightarrow>
       py ((new_Piece KO)\<lparr>py := - 2\<rparr>) + int y + 0 < 0"
    by (simp add: TETROS_def new_Piece_def)
  have above: "\<not> collision full_grid ((new_Piece KO)\<lparr>py := - 2\<rparr>) 0 0 (TETROS KO)"
    "collision full_grid ((new_Piece KO)\<lparr>py := - 2\<rparr>) 6 0 (TETROS KO)"
    using h collision_iff [of full_grid "(new_Piece KO)\<lparr>py := - 2\<rparr>" 0 0 "TETROS KO"]
      collision_iff [of full_grid "(new_Piece KO)\<lparr>py := - 2\<rparr>" 6 0 "TETROS KO"]
    by (simp_all add: TETROS_def new_Piece_def All_less_Suc Ex_less_Suc numeral_2_eq_2)
  have rows: "length (board gap_game) = 20" "board gap_game ! 18 = replicate 10 None"
    "board gap_game ! 19 = [Some KI, Some KI, Some KI, None, None,
                            Some KI, Some KI, Some KI, Some KI, Some KI]"
    by (simp_all add: gap_game_def start_game_def nth_append)
  have stack: "\<not> collision (board gap_game) ((new_Piece KO)\<lparr>py := 18\<rparr>) 0 0 (TETROS KO)"
    "collision (board gap_game) ((new_Piece KO)\<lparr>py := 18\<rparr>) 1 0 (TETROS KO)"
    using wf collision_iff [of "board gap_game" "(new_Piece KO)\<lparr>py := 18\<rparr>" 0 0 "TETROS KO"]
      collision_iff [of "board gap_game" "(new_Piece KO)\<lparr>py := 18\<rparr>" 1 0 "TETROS KO"]
    by (simp_all add: TETROS_def new_Piece_def All_less_Suc Ex_less_Suc numeral_2_eq_2 rows)
  have floor: "\<not> collision new_grid ((new_Piece KO)\<lparr>py := 18\<rparr>) 0 0 (TETROS KO)"
    "collision new_grid ((new_Piece KO)\<lparr>py := 18\<rparr>) 0 1 (TETROS KO)"
    using wf_new_grid collision_iff [of new_grid "(new_Piece KO)\<lparr>py := 18\<rparr>" 0 0 "TETROS KO"]
      collision_iff [of new_grid "(new_Piece KO)\<lparr>py := 18\<rparr>" 0 1 "TETROS KO"]
    by (simp_all add: TETROS_def new_Piece_def All_less_Suc Ex_less_Suc numeral_2_eq_2
                      new_grid_def ROWS_def COLS_def)
  show ?thesis
    using wf cell above stack floor by (simp add: TETROS_def new_Piece_def)
qed

section \<open>The shape of the grid\<close>

lemma not_cell_hit_in_bounds: "\<not> cell_hit g p 0 0 y x \<Longrightarrow> in_bounds p y x"
  by (auto simp: cell_hit_def in_bounds_def Let_def)

lemma wf_grid_write2d:
  assumes "wf_grid g" "0 \<le> i" "i < 20" "0 \<le> j" "j < 10"
  shows "\<exists>g'. write2d g i j v = Inr g' \<and> wf_grid g'"
proof -
  from assms have li: "nat i < length g" by (simp add: wf_grid_def ROWS_def)
  moreover from assms li have "length (g ! nat i) = 10"
    by (simp add: wf_grid_def COLS_def list_all_length)
  ultimately show ?thesis
    using assms
    by (auto simp: write2d_def wf_grid_def list_all_length nth_list_update)
qed

lemma merge_row_ok:
  "wf_grid g \<Longrightarrow> \<forall>i<length vs. vs ! i \<noteq> 0 \<longrightarrow> in_bounds p y (x0 + i) \<Longrightarrow>
   \<exists>g'. merge_row g p vs y x0 = Inr g' \<and> wf_grid g'"
proof (induction vs arbitrary: g x0)
  case Nil
  then show ?case by simp
next
  case (Cons v vs)
  have rest: "\<forall>i<length vs. vs ! i \<noteq> 0 \<longrightarrow> in_bounds p y (Suc x0 + i)"
    using Cons.prems(2) by (auto simp: All_less_Suc2)
  show ?case
  proof (cases "v \<noteq> 0 \<and> py p + int y \<ge> 0")
    case True
    then have "in_bounds p y x0" using Cons.prems(2) by (auto simp: All_less_Suc2)
    with True obtain g1 where w: "write2d g (py p + int y) (px p + int x0) (Some (ptype p)) = Inr g1"
      and wf1: "wf_grid g1"
      using wf_grid_write2d[OF Cons.prems(1), of "py p + int y" "px p + int x0"]
      by (auto simp: in_bounds_def)
    from Cons.IH[OF wf1 rest] True w show ?thesis by simp
  next
    case False
    with Cons.IH[OF Cons.prems(1) rest] show ?thesis by auto
  qed
qed

lemma merge_rows_ok:
  "wf_grid g \<Longrightarrow> \<forall>j<length rows. \<forall>i<length (rows ! j). rows ! j ! i \<noteq> 0 \<longrightarrow> in_bounds p (y0 + j) i \<Longrightarrow>
   \<exists>g'. merge_rows g p rows y0 = Inr g' \<and> wf_grid g'"
proof (induction rows arbitrary: g y0)
  case Nil
  then show ?case by simp
next
  case (Cons r rows)
  have first: "\<forall>i<length r. r ! i \<noteq> 0 \<longrightarrow> in_bounds p y0 (0 + i)"
    using Cons.prems(2) by (auto simp: All_less_Suc2)
  have rest: "\<forall>j<length rows. \<forall>i<length (rows ! j). rows ! j ! i \<noteq> 0 \<longrightarrow> in_bounds p (Suc y0 + j) i"
    using Cons.prems(2) by (auto simp: All_less_Suc2)
  from merge_row_ok[OF Cons.prems(1) first] obtain g1
    where m: "merge_row g p r y0 0 = Inr g1" and wf1: "wf_grid g1" by blast
  from Cons.IH[OF wf1 rest] m show ?case by simp
qed

lemma merge_ok:
  assumes "wf_grid g" "\<not> collision g p 0 0 (matrix p)"
  shows "\<exists>g'. merge g p = Inr (p\<lparr>locked := True\<rparr>, g') \<and> wf_grid g'"
proof -
  have "\<forall>j<length (matrix p). \<forall>i<length (matrix p ! j). matrix p ! j ! i \<noteq> 0
          \<longrightarrow> in_bounds (p\<lparr>locked := True\<rparr>) (0 + j) i"
  proof (intro allI impI)
    fix j i
    assume "j < length (matrix p)" "i < length (matrix p ! j)" "matrix p ! j ! i \<noteq> 0"
    with assms(2) have "\<not> cell_hit g p 0 0 j i"
      unfolding collision_cell_hit by blast
    then show "in_bounds (p\<lparr>locked := True\<rparr>) (0 + j) i"
      by (auto simp: cell_hit_def in_bounds_def Let_def)
  qed
  from merge_rows_ok[OF assms(1) this] show ?thesis
    by (auto simp: merge_def Let_def)
qed

lemma clearLines_ok:
  assumes "wf_grid g"
  shows "\<exists>g' n. clearLines g = Inr (g', n) \<and> wf_grid g'"
proof -
  have "length g = ROWS" using assms by (simp add: wf_grid_def)
  from clearLines_eq[OF this] assms show ?thesis
    by (auto simp: wf_grid_def list_all_iff sum_length_filter_compl)
qed

lemma board_calls_ok:
  "wf_grid g \<Longrightarrow> calls_free g cs \<Longrightarrow> \<exists>g'. board_calls g cs = Inr g' \<and> wf_grid g'"
proof (induction cs arbitrary: g)
  case Nil
  then show ?case by simp
next
  case (Cons c cs)
  show ?case
  proof (cases c)
    case (Merge p)
    with Cons.prems have free: "\<not> collision g p 0 0 (matrix p)" by simp
    from merge_ok[OF Cons.prems(1) free] obtain g1
      where m: "merge g p = Inr (p\<lparr>locked := True\<rparr>, g1)" and wf1: "wf_grid g1" by blast
    from Cons.prems(2) Merge m have "calls_free g1 cs" by simp
    from Cons.IH[OF wf1 this] m Merge show ?thesis by simp
  next
    case ClearLines
    from clearLines_ok[OF Cons.prems(1)] obtain g1 n
      where c: "clearLines g = Inr (g1, n)" and wf1: "wf_grid g1" by blast
    from Cons.prems(2) ClearLines c have "calls_free g1 cs" by simp
    from Cons.IH[OF wf1 this] c ClearLines show ?thesis by simp
  qed
qed

lemma kind_cases: "c \<in> {None, Some KS, Some KZ, Some KL, Some KJ, Some KT, Some KO, Some KI}" for c :: cell
  by (cases c; simp) (metis kind.exhaust)

text \<open>
  Claim C10. From the empty grid, after any sequence of \<open>merge\<close> calls on pieces that do not
  collide and of \<open>clearLines\<close> calls, no call has failed or written outside the grid, the
  grid has 20 rows of 10 cells, every cell is empty or one of the seven kinds, and a further
  \<open>merge\<close> of a piece that does not collide stays inside the grid.
\<close>

theorem board_invariant:
  "calls_free new_grid cs \<Longrightarrow>
   \<exists>g'. board_calls new_grid cs = Inr g' \<and> length g' = ROWS \<and>
        (\<forall>row\<in>set g'. length row = COLS \<and>
           set row \<subseteq> {None, Some KS, Some KZ, Some KL, Some KJ, Some KT, Some KO, Some KI}) \<and>
        (\<forall>p. \<not> collision g' p 0 0 (matrix p) \<longrightarrow>
           (\<exists>g''. merge g' p = Inr (p\<lparr>locked := True\<rparr>, g'') \<and> length g'' = ROWS \<and>
                  (\<forall>row\<in>set g''. length row = COLS)))"
proof -
  assume "calls_free new_grid cs"
  from board_calls_ok[OF wf_new_grid this] obtain g'
    where run: "board_calls new_grid cs = Inr g'" and wf: "wf_grid g'" by blast
  have "\<exists>g''. merge g' p = Inr (p\<lparr>locked := True\<rparr>, g'') \<and> length g'' = ROWS \<and>
                  (\<forall>row\<in>set g''. length row = COLS)"
    if "\<not> collision g' p 0 0 (matrix p)" for p
    using merge_ok[OF wf that] by (auto simp: wf_grid_def list_all_iff)
  with run wf show ?thesis
    using kind_cases by (auto simp: wf_grid_def list_all_iff)
qed

theorem board_invariant_witness:
  "calls_free new_grid demo_calls \<and>
   (\<exists>g'. board_calls new_grid demo_calls = Inr g' \<and> length g' = ROWS \<and>
        (\<forall>row\<in>set g'. length row = COLS))"
proof -
  have h: "calls_free new_grid demo_calls"
    by code_simp
  show ?thesis
    using h board_invariant [OF h] by blast
qed

section \<open>Kick tables\<close>

lemma num_str_digits:
  "num_str 0 = ''0''" "num_str 1 = ''1''" "num_str 2 = ''2''" "num_str 3 = ''3''"
  "num_str (Suc 0) = ''1''" "num_str (Suc (Suc 0)) = ''2''"
  by (simp_all add: num_str.simps digit_char_def)

lemma kick_lookup:
  assumes "from < 4" "dir = 1 \<or> dir = - 1"
  shows "\<exists>td ti.
           map_of KICKS_default (kick_key from ((from + (if dir > (0::int) then 1 else 3)) mod 4))
             = Some td \<and>
           map_of KICKS_I (kick_key from ((from + (if dir > 0 then 1 else 3)) mod 4)) = Some ti \<and>
           length td = 5 \<and> length ti = 5 \<and>
           (\<forall>t. kick_table t (kick_key from ((from + (if dir > 0 then 1 else 3)) mod 4)) =
                  (if t = KI then ti else td))"
proof -
  from assms(1) have "from = 0 \<or> from = 1 \<or> from = 2 \<or> from = 3" by arith
  with assms(2) show ?thesis
    by (elim disjE; simp add: kick_key_def num_str_digits KICKS_default_def KICKS_I_def
                              kick_table_def)
qed

text \<open>
  Claim C9. For an orientation from 0 to 3 and a direction 1 or -1, the key that \<open>rotate\<close>
  builds is a key of both kick tables, so the table used is the entry found and never the
  fallback \<open>[[0,0]]\<close>; and every entry of both tables has exactly 5 offsets, the first of
  which is (0,0).
\<close>

theorem kick_keys_present:
  "(from < 4 \<and> (dir = 1 \<or> dir = - 1) \<longrightarrow>
      (\<exists>td ti.
         map_of KICKS_default (kick_key from ((from + (if dir > (0::int) then 1 else 3)) mod 4))
           = Some td \<and>
         map_of KICKS_I (kick_key from ((from + (if dir > 0 then 1 else 3)) mod 4)) = Some ti \<and>
         (\<forall>t. kick_table t (kick_key from ((from + (if dir > 0 then 1 else 3)) mod 4)) =
                (if t = KI then ti else td)))) \<and>
   list_all (\<lambda>(key, tab). length tab = 5 \<and> tab ! 0 = (0, 0)) (KICKS_default @ KICKS_I)"
proof (intro conjI impI)
  assume a: "from < 4 \<and> (dir = 1 \<or> dir = - 1)"
  then show "\<exists>td ti.
         map_of KICKS_default (kick_key from ((from + (if dir > (0::int) then 1 else 3)) mod 4))
           = Some td \<and>
         map_of KICKS_I (kick_key from ((from + (if dir > 0 then 1 else 3)) mod 4)) = Some ti \<and>
         (\<forall>t. kick_table t (kick_key from ((from + (if dir > 0 then 1 else 3)) mod 4)) =
                (if t = KI then ti else td))"
    using kick_lookup [of "from" dir] by blast
next
  show "list_all (\<lambda>(key, tab). length tab = 5 \<and> tab ! 0 = (0, 0)) (KICKS_default @ KICKS_I)"
    by (simp add: KICKS_default_def KICKS_I_def)
qed

theorem kick_keys_present_witness:
  "(3::nat) < 4 \<and> ((1::int) = 1 \<or> (1::int) = - 1) \<and>
   kick_key 3 ((3 + (if (1::int) > 0 then 1 else 3)) mod 4) = ''3>0'' \<and>
   kick_table KI ''3>0'' = [(0,0),(1,0),(-2,0),(1,-2),(-2,1)] \<and>
   kick_table KT ''3>0'' = [(0,0),(-1,0),(-1,-1),(0,2),(-1,2)]"
  using kick_keys_present [of 3 1]
  by (simp add: kick_key_def num_str_digits KICKS_default_def KICKS_I_def)

section \<open>Rotation\<close>

lemma write2d_nth:
  assumes "dims N res" "i < N" "j < N"
  shows "\<exists>res'. write2d res (int i) (int j) v = Inr res' \<and> dims N res' \<and>
           (\<forall>a<N. \<forall>b<N. res' ! a ! b = (if a = i \<and> b = j then v else res ! a ! b))"
proof -
  from assms have li: "i < length res" by (simp add: dims_def)
  moreover from assms li have lj: "length (res ! i) = N"
    by (simp add: dims_def list_all_length)
  ultimately show ?thesis
    using assms
    by (auto simp: write2d_def dims_def list_all_length nth_list_update)
qed

lemma rotate_row_partly:
  assumes "square m" "y < length m"
  shows "partly_rotated m dir y x0 res \<Longrightarrow> vs = drop x0 (m ! y) \<Longrightarrow>
         \<exists>res'. rotate_row res (length m) (length m) dir vs y x0 = Inr res' \<and>
                partly_rotated m dir (Suc y) 0 res'"
proof (induction vs arbitrary: res x0)
  case Nil
  have len: "length (m ! y) = length m"
    using assms by (simp add: square_def list_all_length)
  from Nil(2) len have "length m \<le> x0" by simp
  then have "done_cell (Suc y) 0 sy sx \<Longrightarrow> sx < length m \<Longrightarrow> done_cell y x0 sy sx" for sy sx
    by (auto simp: done_cell_def)
  moreover have "src_col dir (length m) a b < length m" if "a < length m" for a b
    using that by (auto simp: src_col_def)
  ultimately show ?case
    using Nil(1) by (simp add: partly_rotated_def)
next
  case (Cons v vs)
  let ?N = "length m"
  have len: "length (m ! y) = ?N"
    using assms by (simp add: square_def list_all_length)
  from Cons.prems(2) len have x0: "x0 < ?N"
    by (metis drop_eq_Nil linorder_not_less list.distinct(1))
  from Cons.prems(2) x0 len have v: "v = m ! y ! x0" and vs: "vs = drop (Suc x0) (m ! y)"
    by (simp_all add: Cons_nth_drop_Suc[symmetric])
  define ti where "ti = (if dir > 0 then x0 else ?N - 1 - x0)"
  define tj where "tj = (if dir > 0 then ?N - 1 - y else y)"
  have ti: "ti < ?N" and tj: "tj < ?N" using x0 assms(2) by (auto simp: ti_def tj_def)
  have w: "(if dir > 0 then write2d res (int x0) (int ?N - 1 - int y) v
            else write2d res (int ?N - 1 - int x0) (int y) v) = write2d res (int ti) (int tj) v"
  proof -
    have "int ?N - 1 - int y = int (?N - 1 - y)" "int ?N - 1 - int x0 = int (?N - 1 - x0)"
      using x0 assms(2) by linarith+
    then show ?thesis by (simp only: ti_def tj_def if_distrib[of int] split: if_splits) simp
  qed
  from Cons.prems(1) have d: "dims ?N res" by (simp add: partly_rotated_def)
  from write2d_nth[OF d ti tj, of v] obtain r1
    where w1: "write2d res (int ti) (int tj) v = Inr r1" and d1: "dims ?N r1"
      and n1: "\<forall>a<?N. \<forall>b<?N. r1 ! a ! b = (if a = ti \<and> b = tj then v else res ! a ! b)"
    by blast
  have src: "src_row dir ?N a b = y \<and> src_col dir ?N a b = x0 \<longleftrightarrow> a = ti \<and> b = tj"
    if "a < ?N" "b < ?N" for a b
    using that x0 assms(2) by (auto simp: src_row_def src_col_def ti_def tj_def)
  have p1: "partly_rotated m dir y (Suc x0) r1"
    unfolding partly_rotated_def
  proof (intro conjI allI impI)
    show "dims ?N r1" by (rule d1)
  next
    fix a b assume ab: "a < ?N" "b < ?N"
      and dn: "done_cell y (Suc x0) (src_row dir ?N a b) (src_col dir ?N a b)"
    show "r1 ! a ! b = m ! src_row dir ?N a b ! src_col dir ?N a b"
    proof (cases "a = ti \<and> b = tj")
      case True
      with n1 ab have "r1 ! a ! b = v" by auto
      moreover from True src[OF ab] have "src_row dir ?N a b = y" "src_col dir ?N a b = x0"
        by auto
      ultimately show ?thesis using v by simp
    next
      case False
      with src[OF ab] dn have "done_cell y x0 (src_row dir ?N a b) (src_col dir ?N a b)"
        by (auto simp: done_cell_def less_Suc_eq)
      with Cons.prems(1) ab have "res ! a ! b = m ! src_row dir ?N a b ! src_col dir ?N a b"
        by (simp add: partly_rotated_def)
      moreover from False n1 ab have "r1 ! a ! b = res ! a ! b" by auto
      ultimately show ?thesis by simp
    qed
  qed
  from Cons.IH[OF p1 vs] w w1 show ?case by simp
qed

lemma rotate_rows_partly:
  assumes "square m"
  shows "partly_rotated m dir y0 0 res \<Longrightarrow> rows = drop y0 m \<Longrightarrow>
         \<exists>res'. rotate_rows res (length m) (length m) dir rows y0 = Inr res' \<and>
                partly_rotated m dir (length m) 0 res'"
proof (induction rows arbitrary: res y0)
  case Nil
  then have "length m \<le> y0" by simp
  then have "done_cell (length m) 0 sy sx \<Longrightarrow> done_cell y0 0 sy sx" for sy sx
    by (auto simp: done_cell_def)
  with Nil(1) show ?case by (simp add: partly_rotated_def)
next
  case (Cons r rows)
  from Cons.prems(2) have y0: "y0 < length m"
    by (metis drop_eq_Nil linorder_not_less list.distinct(1))
  from Cons.prems(2) y0 have r: "r = drop 0 (m ! y0)" and rows: "rows = drop (Suc y0) m"
    by (simp_all add: Cons_nth_drop_Suc[symmetric])
  from rotate_row_partly[OF assms y0 Cons.prems(1) r] obtain r1
    where w: "rotate_row res (length m) (length m) dir r y0 0 = Inr r1"
      and p1: "partly_rotated m dir (Suc y0) 0 r1" by blast
  from Cons.IH[OF p1 rows] w show ?case by simp
qed

lemma rotateMatrix_cells:
  assumes "square m"
  shows "rotateMatrix m dir =
           Inr (map (\<lambda>a. map (\<lambda>b. if dir > 0 then m ! (length m - 1 - b) ! a
                                     else m ! b ! (length m - 1 - a))
                            [0..<length m])
                    [0..<length m])"
proof (cases m)
  case Nil
  then show ?thesis by (simp add: rotateMatrix_def)
next
  case (Cons r0 rs)
  let ?N = "length m"
  from Cons assms have w: "width0 m = ?N" by (simp add: width0_def square_def)
  have "partly_rotated m dir 0 0 (replicate ?N (replicate ?N 0))"
    by (simp add: partly_rotated_def dims_def done_cell_def list_all_iff)
  from rotate_rows_partly[OF assms this, of m] obtain res
    where run: "rotate_rows (replicate ?N (replicate ?N 0)) ?N ?N dir m 0 = Inr res"
      and p: "partly_rotated m dir ?N 0 res" by auto
  have d: "length res = ?N" "\<And>a. a < ?N \<Longrightarrow> length (res ! a) = ?N"
    using p by (simp_all add: partly_rotated_def dims_def list_all_length)
  have cells: "res ! a ! b = (if dir > 0 then m ! (?N - 1 - b) ! a else m ! b ! (?N - 1 - a))"
    if "a < ?N" "b < ?N" for a b
  proof -
    have "done_cell ?N 0 (src_row dir ?N a b) (src_col dir ?N a b)"
      using that by (auto simp: done_cell_def src_row_def)
    with p that show ?thesis
      by (simp add: partly_rotated_def src_row_def src_col_def)
  qed
  have "res = map (\<lambda>a. map (\<lambda>b. if dir > 0 then m ! (?N - 1 - b) ! a
                                     else m ! b ! (?N - 1 - a)) [0..<?N]) [0..<?N]"
    by (rule nth_equalityI) (auto simp: d cells intro!: nth_equalityI)
  with run show ?thesis by (simp add: rotateMatrix_def Let_def w)
qed

lemma kick_table_kicks_of:
  assumes "from < 4" "dir = 1 \<or> dir = - 1"
  shows "map_of (if t = KI then KICKS_I else KICKS_default)
           (kick_key from ((from + (if dir > (0::int) then 1 else 3)) mod 4))
           = Some (kicks_of t from ((from + (if dir > 0 then 1 else 3)) mod 4)) \<and>
         kick_table t (kick_key from ((from + (if dir > 0 then 1 else 3)) mod 4))
           = kicks_of t from ((from + (if dir > 0 then 1 else 3)) mod 4) \<and>
         length (kicks_of t from ((from + (if dir > 0 then 1 else 3)) mod 4)) = 5"
proof -
  from assms(1) have "from = 0 \<or> from = 1 \<or> from = 2 \<or> from = 3" by arith
  with assms(2) show ?thesis
    by (elim disjE; simp add: kick_key_def num_str_digits KICKS_default_def KICKS_I_def
                              kick_table_def kicks_of_def)
qed

lemma rotate_kicks_find:
  "rotate_kicks g rotated to table =
     (case find (\<lambda>(dx, dy). \<not> collision (board g) (current g) dx dy rotated) table of
        None \<Rightarrow> (JSBool False, g)
      | Some (dx, dy) \<Rightarrow>
          (JSBool True,
           let c = (current g)\<lparr>matrix := rotated, px := px (current g) + dx,
                                py := py (current g) + dy, rot := to\<rparr>
           in if \<not> collision (board g) c 0 1 rotated
              then g\<lparr>current := c, grounded := False, lockTimer := 0\<rparr>
              else g\<lparr>current := c\<rparr>))"
  by (induction table) (auto simp: Let_def)

text \<open>
  Claim C3. For a current piece that is not O, with a square matrix, an orientation from 0
  to 3 and a direction 1 or -1: the target orientation is \<open>(from+1) mod 4\<close> for direction 1
  and \<open>(from+3) mod 4\<close> for -1; the candidate matrix is the quarter turn of the piece's matrix
  (cell \<open>(a, b)\<close> from \<open>(N-1-b, a)\<close> clockwise, from \<open>(b, N-1-a)\<close> counter-clockwise); the table
  is the 5 offsets of that transition, of the I table for kind I and of the shared table
  otherwise; \<open>rotate\<close> takes the first offset of the table at which the candidate does not
  collide, installs the candidate, adds the offset to the position, sets the orientation and
  returns true; when no offset is free it returns false and the game, with its piece, is
  unchanged.
\<close>

theorem rotate_first_kick:
  assumes "ptype (current g) \<noteq> KO" and "rot (current g) < 4" and "dir = 1 \<or> dir = - 1"
    and "square (matrix (current g))"
  shows "\<exists>rotated table.
           rotated =
             map (\<lambda>a. map (\<lambda>b. if dir = 1
                                 then matrix (current g) ! (length (matrix (current g)) - 1 - b) ! a
                                 else matrix (current g) ! b ! (length (matrix (current g)) - 1 - a))
                          [0..<length (matrix (current g))])
                 [0..<length (matrix (current g))] \<and>
           rotateMatrix (matrix (current g)) dir = Inr rotated \<and>
           table =
             kicks_of (ptype (current g)) (rot (current g))
               (if dir = 1 then (rot (current g) + 1) mod 4 else (rot (current g) + 3) mod 4) \<and>
           map_of (if ptype (current g) = KI then KICKS_I else KICKS_default)
                  (kick_key (rot (current g))
                     (if dir = 1 then (rot (current g) + 1) mod 4 else (rot (current g) + 3) mod 4))
             = Some table \<and>
           length table = 5 \<and>
           (case find (\<lambda>(dx, dy). \<not> collision (board g) (current g) dx dy rotated) table of
              None \<Rightarrow> rotate g dir = Inr (JSBool False, g)
            | Some (dx, dy) \<Rightarrow>
                rotate g dir =
                  Inr (JSBool True,
                       let c = (current g)\<lparr>matrix := rotated, px := px (current g) + dx,
                                            py := py (current g) + dy,
                                            rot := (if dir = 1 then (rot (current g) + 1) mod 4
                                                    else (rot (current g) + 3) mod 4)\<rparr>
                       in if \<not> collision (board g) c 0 1 rotated
                          then g\<lparr>current := c, grounded := False, lockTimer := 0\<rparr>
                          else g\<lparr>current := c\<rparr>))"
proof -
  let ?m = "matrix (current g)"
  let ?to = "(rot (current g) + (if dir > 0 then 1 else 3)) mod 4"
  let ?rotated = "map (\<lambda>a. map (\<lambda>b. if dir > 0 then ?m ! (length ?m - 1 - b) ! a
                                        else ?m ! b ! (length ?m - 1 - a))
                               [0..<length ?m]) [0..<length ?m]"
  let ?table = "kicks_of (ptype (current g)) (rot (current g)) ?to"
  have to: "(if dir = 1 then (rot (current g) + 1) mod 4 else (rot (current g) + 3) mod 4) = ?to"
    using assms(3) by auto
  have d1: "(dir = 1) = (dir > 0)" using assms(3) by auto
  have rm: "rotateMatrix ?m dir = Inr ?rotated"
    by (rule rotateMatrix_cells[OF assms(4)])
  from kick_table_kicks_of[OF assms(2,3), of "ptype (current g)"]
  have mo: "map_of (if ptype (current g) = KI then KICKS_I else KICKS_default)
              (kick_key (rot (current g)) ?to) = Some ?table"
    and kt: "kick_table (ptype (current g)) (kick_key (rot (current g)) ?to) = ?table"
    and len: "length ?table = 5"
    by blast+
  have r: "rotate g dir = Inr (rotate_kicks g ?rotated ?to ?table)"
    using assms(1) rm kt by (simp add: rotate_def Let_def)
  show ?thesis
    unfolding to
    unfolding d1
    by (intro exI[of _ ?rotated] exI[of _ ?table] conjI refl rm mo len)
       (simp add: r rotate_kicks_find split: option.split)
qed

theorem rotate_first_kick_witness:
  "ptype (current wall_game) \<noteq> KO \<and> rot (current wall_game) < 4 \<and>
   square (matrix (current wall_game)) \<and>
   rotate wall_game 1 =
     Inr (JSBool True,
          wall_game\<lparr>current := \<lparr> ptype = KT, matrix = [[0,0,0],[1,1,1],[0,1,0]],
                                  px = 0, py = 5, rot = 2, locked = False \<rparr>\<rparr>) \<and>
   rotate wall_game (- 1) =
     Inr (JSBool True,
          wall_game\<lparr>current := \<lparr> ptype = KT, matrix = [[0,1,0],[1,1,1],[0,0,0]],
                                  px = 0, py = 5, rot = 0, locked = False \<rparr>\<rparr>) \<and>
   ptype (current floor_game) \<noteq> KO \<and> rot (current floor_game) < 4 \<and>
   square (matrix (current floor_game)) \<and>
   rotate floor_game 1 = Inr (JSBool False, floor_game) \<and>
   ptype (current I_wall_game) \<noteq> KO \<and> rot (current I_wall_game) < 4 \<and>
   square (matrix (current I_wall_game)) \<and>
   rotate I_wall_game 1 =
     Inr (JSBool True,
          I_wall_game\<lparr>current :=
             \<lparr> ptype = KI, matrix = [[0,0,0,0],[0,0,0,0],[1,1,1,1],[0,0,0,0]],
               px = 0, py = 5, rot = 2, locked = False \<rparr>\<rparr>)"
proof -
  have cw: "(1::int) = 1 \<or> (1::int) = - 1" and ccw: "(- 1::int) = 1 \<or> (- 1::int) = - 1"
    by simp_all
  have a1: "ptype (current wall_game) \<noteq> KO" and a2: "rot (current wall_game) < 4"
    and a4: "square (matrix (current wall_game))"
    by (simp_all add: wall_game_def start_game_def square_def)
  have ak: "collision new_grid \<lparr> ptype = KT, matrix = [[0,1,0],[0,1,1],[0,1,0]],
                      px = - 1, py = 5, rot = 1, locked = False \<rparr> 0 0 [[0,0,0],[1,1,1],[0,1,0]]"
    "\<not> collision new_grid \<lparr> ptype = KT, matrix = [[0,1,0],[0,1,1],[0,1,0]],
                      px = - 1, py = 5, rot = 1, locked = False \<rparr> 1 0 [[0,0,0],[1,1,1],[0,1,0]]"
    "\<not> collision new_grid \<lparr> ptype = KT, matrix = [[0,0,0],[1,1,1],[0,1,0]],
                      px = 0, py = 5, rot = 2, locked = False \<rparr> 0 1 [[0,0,0],[1,1,1],[0,1,0]]"
    "collision new_grid \<lparr> ptype = KT, matrix = [[0,1,0],[0,1,1],[0,1,0]],
                      px = - 1, py = 5, rot = 1, locked = False \<rparr> 0 0 [[0,1,0],[1,1,1],[0,0,0]]"
    "\<not> collision new_grid \<lparr> ptype = KT, matrix = [[0,1,0],[0,1,1],[0,1,0]],
                      px = - 1, py = 5, rot = 1, locked = False \<rparr> 1 0 [[0,1,0],[1,1,1],[0,0,0]]"
    "\<not> collision new_grid \<lparr> ptype = KT, matrix = [[0,1,0],[1,1,1],[0,0,0]],
                      px = 0, py = 5, rot = 0, locked = False \<rparr> 0 1 [[0,1,0],[1,1,1],[0,0,0]]"
    by code_simp+
  have r1: "rotate wall_game 1 =
     Inr (JSBool True,
          wall_game\<lparr>current := \<lparr> ptype = KT, matrix = [[0,0,0],[1,1,1],[0,1,0]],
                                  px = 0, py = 5, rot = 2, locked = False \<rparr>\<rparr>)"
    using rotate_first_kick [OF a1 a2 cw a4] ak
    by (simp add: wall_game_def start_game_def kicks_of_def Let_def numeral_2_eq_2)
  have r2: "rotate wall_game (- 1) =
     Inr (JSBool True,
          wall_game\<lparr>current := \<lparr> ptype = KT, matrix = [[0,1,0],[1,1,1],[0,0,0]],
                                  px = 0, py = 5, rot = 0, locked = False \<rparr>\<rparr>)"
    using rotate_first_kick [OF a1 a2 ccw a4] ak
    by (simp add: wall_game_def start_game_def kicks_of_def Let_def numeral_2_eq_2)
  have b1: "ptype (current floor_game) \<noteq> KO" and b2: "rot (current floor_game) < 4"
    and b4: "square (matrix (current floor_game))"
    by (simp_all add: floor_game_def start_game_def new_Piece_def TETROS_def square_def)
  have bk: "collision new_grid ((new_Piece KI)\<lparr>py := 18\<rparr>) 0 0
              [[0,0,1,0],[0,0,1,0],[0,0,1,0],[0,0,1,0]]"
    "collision new_grid ((new_Piece KI)\<lparr>py := 18\<rparr>) (- 2) 0
              [[0,0,1,0],[0,0,1,0],[0,0,1,0],[0,0,1,0]]"
    "collision new_grid ((new_Piece KI)\<lparr>py := 18\<rparr>) 1 0
              [[0,0,1,0],[0,0,1,0],[0,0,1,0],[0,0,1,0]]"
    "collision new_grid ((new_Piece KI)\<lparr>py := 18\<rparr>) (- 2) (- 1)
              [[0,0,1,0],[0,0,1,0],[0,0,1,0],[0,0,1,0]]"
    "collision new_grid ((new_Piece KI)\<lparr>py := 18\<rparr>) 1 2
              [[0,0,1,0],[0,0,1,0],[0,0,1,0],[0,0,1,0]]"
    by code_simp+
  have r3: "rotate floor_game 1 = Inr (JSBool False, floor_game)"
    using rotate_first_kick [OF b1 b2 cw b4] bk
    by (simp add: floor_game_def start_game_def new_Piece_def TETROS_def kicks_of_def Let_def
                  numeral_2_eq_2)
  have c1: "ptype (current I_wall_game) \<noteq> KO" and c2: "rot (current I_wall_game) < 4"
    and c4: "square (matrix (current I_wall_game))"
    by (simp_all add: I_wall_game_def start_game_def square_def)
  have ck: "collision new_grid \<lparr> ptype = KI, matrix = [[0,0,1,0],[0,0,1,0],[0,0,1,0],[0,0,1,0]],
                      px = - 2, py = 5, rot = 1, locked = False \<rparr> 0 0
              [[0,0,0,0],[0,0,0,0],[1,1,1,1],[0,0,0,0]]"
    "collision new_grid \<lparr> ptype = KI, matrix = [[0,0,1,0],[0,0,1,0],[0,0,1,0],[0,0,1,0]],
                      px = - 2, py = 5, rot = 1, locked = False \<rparr> (- 1) 0
              [[0,0,0,0],[0,0,0,0],[1,1,1,1],[0,0,0,0]]"
    "\<not> collision new_grid \<lparr> ptype = KI, matrix = [[0,0,1,0],[0,0,1,0],[0,0,1,0],[0,0,1,0]],
                      px = - 2, py = 5, rot = 1, locked = False \<rparr> 2 0
              [[0,0,0,0],[0,0,0,0],[1,1,1,1],[0,0,0,0]]"
    "\<not> collision new_grid \<lparr> ptype = KI, matrix = [[0,0,0,0],[0,0,0,0],[1,1,1,1],[0,0,0,0]],
                      px = 0, py = 5, rot = 2, locked = False \<rparr> 0 1
              [[0,0,0,0],[0,0,0,0],[1,1,1,1],[0,0,0,0]]"
    by code_simp+
  have r4: "rotate I_wall_game 1 =
     Inr (JSBool True,
          I_wall_game\<lparr>current :=
             \<lparr> ptype = KI, matrix = [[0,0,0,0],[0,0,0,0],[1,1,1,1],[0,0,0,0]],
               px = 0, py = 5, rot = 2, locked = False \<rparr>\<rparr>)"
    using rotate_first_kick [OF c1 c2 cw c4] ck
    by (simp add: I_wall_game_def start_game_def kicks_of_def Let_def numeral_2_eq_2)
  show ?thesis
    using a1 a2 a4 r1 r2 b1 b2 b4 r3 c1 c2 c4 r4 by blast
qed


lemma rotate_O_unchanged:
  "ptype (current g) = KO \<Longrightarrow> rotate g dir = Inr (JSUndefined, g)"
  by (simp add: rotate_def)

text \<open>
  Claim C7. For a current piece of kind O, \<open>rotate\<close> is a no-op that reports no rotation:
  it returns false and leaves orientation, position and matrix as they are. The code keeps
  the state, as the lemma above shows for every game, but its first line leaves through a
  bare \<open>return;\<close>, so the value handed back is \<open>undefined\<close>, where the other two exits of the
  same method hand back \<open>true\<close> and \<open>false\<close>: on a new game whose piece is O, \<open>rotate(1)\<close>
  gives \<open>undefined\<close> and not \<open>false\<close>.
\<close>

theorem rotate_O_returns_undefined:
  "ptype (current (start_game KO)) = KO \<and>
   rotate (start_game KO) 1 = Inr (JSUndefined, start_game KO) \<and>
   rotate (start_game KO) 1 \<noteq> Inr (JSBool False, start_game KO)"
  by (simp add: rotate_def start_game_def new_Piece_def)

section \<open>The bag\<close>

lemma shuffle_length: "length (fst (shuffle i p r)) = length p"
  by (induction i arbitrary: p r) (simp_all add: Let_def Math_random_def)

lemma floor_index:
  assumes "0 \<le> u" "u < 1"
  shows "nat \<lfloor>u * real (Suc i + 1)\<rfloor> \<le> Suc i"
proof -
  have "u * real (Suc i + 1) < real (Suc i + 1)"
    using assms by simp
  then have "\<lfloor>u * real (Suc i + 1)\<rfloor> < int (Suc i + 1)"
    by (simp add: floor_less_iff)
  then show ?thesis by simp
qed

lemma shuffle_mset:
  "unit_rnd r \<Longrightarrow> i < length p \<Longrightarrow> mset (fst (shuffle i p r)) = mset p"
proof (induction i arbitrary: p r)
  case 0
  then show ?case by simp
next
  case (Suc i)
  let ?j = "nat \<lfloor>r 0 * real (Suc i + 1)\<rfloor>"
  have j: "?j \<le> Suc i" using Suc.prems(1) floor_index[of "r 0" i] by (simp add: unit_rnd_def)
  have r': "unit_rnd (\<lambda>n. r (Suc n))" using Suc.prems(1) by (simp add: unit_rnd_def)
  have sw: "mset (p[Suc i := p ! ?j, ?j := p ! Suc i]) = mset p"
    using j Suc.prems(2) by (simp add: mset_swap)
  have "mset (fst (shuffle i (p[Suc i := p ! ?j, ?j := p ! Suc i]) (\<lambda>n. r (Suc n)))) =
        mset (p[Suc i := p ! ?j, ?j := p ! Suc i])"
    using Suc.IH[OF r'] Suc.prems(2) by simp
  with sw show ?case by (simp add: Let_def Math_random_def)
qed

lemma shuffle_rnd: "unit_rnd r \<Longrightarrow> unit_rnd (snd (shuffle i p r))"
  by (induction i arbitrary: p r) (simp_all add: Let_def Math_random_def unit_rnd_def)

lemma Bag_next_nonempty:
  "pool b \<noteq> [] \<Longrightarrow> Bag_next b = (Some (last (pool b)), b\<lparr>pool := butlast (pool b)\<rparr>)"
  by (simp add: Bag_next_def pop_def)

lemma draws_nonempty:
  "n \<le> length (pool b) \<Longrightarrow>
   draws n b = (map Some (take n (rev (pool b))), b\<lparr>pool := take (length (pool b) - n) (pool b)\<rparr>)"
proof (induction n arbitrary: b)
  case 0
  then show ?case by simp
next
  case (Suc n)
  then have ne: "pool b \<noteq> []" by auto
  have le: "n \<le> length (pool (b\<lparr>pool := butlast (pool b)\<rparr>))" using Suc.prems by simp
  have "take (Suc n) (rev (pool b)) = last (pool b) # take n (rev (butlast (pool b)))"
    using ne by (metis append_butlast_last_id rev.simps(2) rev_rev_ident rev_swap take_Suc_Cons rev_append singleton_rev_conv append_Cons append_Nil)
  moreover have "take (length (butlast (pool b)) - n) (butlast (pool b)) = take (length (pool b) - Suc n) (pool b)"
    by (simp add: butlast_conv_take min_def)
  ultimately show ?case
    using Suc.IH[OF le] by (simp add: Bag_next_nonempty[OF ne])
qed

lemma Bag_next_empty:
  assumes "pool b = []"
  shows "\<exists>b1. Bag_next b = (Some (last (fst (shuffle (length all_kinds - 1) all_kinds (rnd b)))), b1) \<and>
              pool b1 = butlast (fst (shuffle (length all_kinds - 1) all_kinds (rnd b))) \<and>
              rnd b1 = snd (shuffle (length all_kinds - 1) all_kinds (rnd b))"
proof -
  have "length (fst (shuffle (length all_kinds - 1) all_kinds (rnd b))) = 7"
    by (simp add: shuffle_length all_kinds_def del: shuffle.simps)
  then have ne: "fst (shuffle (length all_kinds - 1) all_kinds (rnd b)) \<noteq> []" by auto
  show ?thesis
    using assms ne
    by (simp add: Bag_next_def pop_def Let_def case_prod_unfold del: shuffle.simps)
qed

lemma Bag_next_Some: "\<exists>k b'. Bag_next b = (Some k, b')"
  using Bag_next_empty[of b] by (cases "pool b = []") (auto simp add: Bag_next_nonempty)

lemma shuffle_all_length: "length (fst (shuffle (length all_kinds - 1) all_kinds r)) = 7"
  by (simp only: shuffle_length) (simp add: all_kinds_def)

lemma shuffle_all_mset:
  "unit_rnd r \<Longrightarrow> mset (fst (shuffle (length all_kinds - 1) all_kinds r)) = mset all_kinds"
  by (rule shuffle_mset) (simp_all add: all_kinds_def)

lemma distinct_all_kinds: "distinct all_kinds"
  by (simp add: all_kinds_def)

lemma set_all_kinds: "set all_kinds = {KS, KZ, KL, KJ, KT, KO, KI}"
  by (simp add: all_kinds_def)

lemma draws_Suc:
  "Bag_next b = (k, b1) \<Longrightarrow> draws n b1 = (ks, b2) \<Longrightarrow> draws (Suc n) b = (k # ks, b2)"
  by simp

lemma shuffle_zero:
  "shuffle (Suc i) p (\<lambda>n. 0) = shuffle i (p[Suc i := p ! 0, 0 := p ! Suc i]) (\<lambda>n. 0)"
  by (simp add: Math_random_def)

lemma shuffle_zero_bag: "shuffle (length all_kinds - 1) all_kinds (\<lambda>n. 0) = ([KZ, KL, KJ, KT, KO, KI, KS], (\<lambda>n. 0))"
proof -
  have "shuffle (Suc (Suc (Suc (Suc (Suc (Suc 0)))))) [KS, KZ, KL, KJ, KT, KO, KI] (\<lambda>n. 0)
        = ([KZ, KL, KJ, KT, KO, KI, KS], (\<lambda>n. 0::real))"
    by (simp only: shuffle_zero shuffle.simps(1) nth_Cons_Suc nth_Cons_0 list_update_code)
  then show ?thesis by (simp add: all_kinds_def del: shuffle.simps)
qed

text \<open>
  Claim C8. Whatever numbers \<open>Math.random()\<close> gives, the 7 calls of \<open>next()\<close> that start
  on an empty pool return the 7 kinds, each exactly once, and leave the pool empty again.
\<close>

theorem bag_seven_draws:
  assumes "unit_rnd (rnd b)" and "pool b = []"
  shows "\<exists>ks. fst (draws 7 b) = map Some ks \<and> mset ks = mset all_kinds \<and>
              distinct ks \<and> set ks = {KS, KZ, KL, KJ, KT, KO, KI} \<and> length ks = 7 \<and>
              pool (snd (draws 7 b)) = []"
proof -
  define p where "p = fst (shuffle (length all_kinds - 1) all_kinds (rnd b))"
  have len: "length p = 7" unfolding p_def by (rule shuffle_all_length)
  then have ne: "p \<noteq> []" by auto
  have ms: "mset p = mset all_kinds"
    unfolding p_def by (rule shuffle_all_mset[OF assms(1)])
  from Bag_next_empty[OF assms(2)] obtain b1
    where first: "Bag_next b = (Some (last p), b1)" and p1: "pool b1 = butlast p"
    unfolding p_def by blast
  have rest: "draws 6 b1 = (map Some (take 6 (rev (butlast p))),
                           b1\<lparr>pool := take (length (butlast p) - 6) (butlast p)\<rparr>)"
    using draws_nonempty[of 6 b1] len p1 by simp
  have seven: "(7::nat) = Suc 6" by simp
  have all: "draws 7 b = (Some (last p) # map Some (take 6 (rev (butlast p))),
                         b1\<lparr>pool := take (length (butlast p) - 6) (butlast p)\<rparr>)"
    unfolding seven by (rule draws_Suc[OF first rest])
  have "take 6 (rev (butlast p)) = rev (butlast p)"
    using len by simp
  then have "last p # take 6 (rev (butlast p)) = rev (butlast p @ [last p])"
    by simp
  also have "\<dots> = rev p" using ne by simp
  finally have rp: "last p # take 6 (rev (butlast p)) = rev p" .
  have d': "fst (draws 7 b) = map Some (rev p)"
    unfolding all rp[symmetric] by simp
  have e: "pool (snd (draws 7 b)) = []"
    using len all by simp
  have "distinct p"
    using mset_eq_imp_distinct_iff[OF ms] distinct_all_kinds by simp
  moreover have "set p = {KS, KZ, KL, KJ, KT, KO, KI}"
    using mset_eq_setD[OF ms] by (simp add: set_all_kinds)
  ultimately have "fst (draws 7 b) = map Some (rev p) \<and> mset (rev p) = mset all_kinds \<and>
              distinct (rev p) \<and> set (rev p) = {KS, KZ, KL, KJ, KT, KO, KI} \<and> length (rev p) = 7 \<and>
              pool (snd (draws 7 b)) = []"
    using d' e ms len by simp
  then show ?thesis by (rule exI)
qed

theorem bag_seven_draws_witness:
  "unit_rnd (rnd zero_bag) \<and> pool zero_bag = [] \<and>
   fst (draws 7 zero_bag) = map Some [KS, KI, KO, KT, KJ, KL, KZ]"
proof -
  have h1: "unit_rnd (rnd zero_bag)" by (simp add: unit_rnd_def zero_bag_def)
  have h2: "pool zero_bag = []" by (simp add: zero_bag_def)
  have n: "Bag_next \<lparr>pool = [], rnd = (\<lambda>n. 0)\<rparr> =
             (Some KS, \<lparr>pool = [KZ, KL, KJ, KT, KO, KI], rnd = (\<lambda>n. 0)\<rparr>)"
    by (simp add: Bag_next_def shuffle_zero_bag [unfolded One_nat_def] pop_def Let_def del: shuffle.simps)
  have "draws 7 zero_bag = (map Some [KS, KI, KO, KT, KJ, KL, KZ], zero_bag)"
    by (simp add: eval_nat_numeral n Bag_next_nonempty zero_bag_def del: shuffle.simps)
  then show ?thesis
    using h1 h2 bag_seven_draws [OF h1 h2] by simp
qed

section \<open>Lock-down and scoring\<close>

lemma spawnIfNeeded_ok:
  assumes "locked (current g)" "nextQ g \<noteq> []"
  shows "\<exists>g'. spawnIfNeeded g = Inr g' \<and> score g' = score g \<and> lines g' = lines g \<and>
              level g' = level g \<and> dropInterval g' = dropInterval g \<and> board g' = board g"
proof -
  from assms(2) obtain p q where nq: "nextQ g = p # q" by (cases "nextQ g") auto
  obtain k b' where bn: "Bag_next (bag g) = (Some k, b')" using Bag_next_Some by blast
  show ?thesis
    using assms(1) nq bn by (simp add: spawnIfNeeded_def Let_def)
qed

lemma line_base_nonneg: "0 \<le> line_base n"
proof -
  have "n = 0 \<or> n = 1 \<or> n = 2 \<or> n = 3 \<or> n = 4 \<or> 5 \<le> n" by arith
  then show ?thesis by (elim disjE) (simp_all add: line_base_def)
qed

lemma lockDown_fields:
  assumes m: "merge (board g) (current g) = Inr (c1, b1)"
    and c: "clearLines b1 = Inr (b2, n)"
    and q: "nextQ g \<noteq> []"
  shows "\<exists>g'. lockDown g = Inr g' \<and> board g' = b2 \<and>
           score g' = (if n \<noteq> 0 then score g + line_base n * level g else score g) \<and>
           lines g' = (if n \<noteq> 0 then lines g + int n else lines g) \<and>
           level g' = (if n \<noteq> 0 then max 1 ((lines g + int n) div 10 + 1) else level g) \<and>
           dropInterval g' =
             (if n \<noteq> 0 then max 80 (1000 - (max 1 ((lines g + int n) div 10 + 1) - 1) * 70)
              else dropInterval g)"
proof (cases "n = 0")
  case True
  define g3 where
    "g3 = g\<lparr>board := b2, shake := max (shake g) 0.18, current := c1\<lparr>locked := True\<rparr>\<rparr>"
  have "locked (current g3)" "nextQ g3 \<noteq> []" using q by (simp_all add: g3_def)
  from spawnIfNeeded_ok[OF this] obtain g4 where s: "spawnIfNeeded g3 = Inr g4"
    and f: "score g4 = score g3" "lines g4 = lines g3" "level g4 = level g3"
           "dropInterval g4 = dropInterval g3" "board g4 = board g3" by blast
  have "lockDown g = (case spawnIfNeeded g3 of Inl e \<Rightarrow> Inl e
                      | Inr g4 \<Rightarrow> Inr (g4\<lparr>lockTimer := 0, grounded := False\<rparr>))"
    using m c True by (simp add: lockDown_def Let_def g3_def)
  then have "lockDown g = Inr (g4\<lparr>lockTimer := 0, grounded := False\<rparr>)"
    by (simp add: s)
  with f True show ?thesis by (simp add: g3_def)
next
  case False
  define g3 where
    "g3 = g\<lparr>board := b2,
               score := score g + line_base n * level g,
               lines := lines g + int n,
               level := max 1 ((lines g + int n) div 10 + 1),
               dropInterval := max 80 (1000 - (max 1 ((lines g + int n) div 10 + 1) - 1) * 70),
               clearedRows := [], flashMs := 220,
               shake := min 0.6 (0.25 + real n * 0.12),
               current := c1\<lparr>locked := True\<rparr>\<rparr>"
  have "locked (current g3)" "nextQ g3 \<noteq> []" using q by (simp_all add: g3_def)
  from spawnIfNeeded_ok[OF this] obtain g4 where s: "spawnIfNeeded g3 = Inr g4"
    and f: "score g4 = score g3" "lines g4 = lines g3" "level g4 = level g3"
           "dropInterval g4 = dropInterval g3" "board g4 = board g3" by blast
  have "lockDown g = (case spawnIfNeeded g3 of Inl e \<Rightarrow> Inl e
                      | Inr g4 \<Rightarrow> Inr (g4\<lparr>lockTimer := 0, grounded := False\<rparr>))"
    using m c False by (simp add: lockDown_def Let_def setLevelByLines_def g3_def)
  then have "lockDown g = Inr (g4\<lparr>lockTimer := 0, grounded := False\<rparr>)"
    by (simp add: s)
  with f False show ?thesis by (simp add: g3_def)
qed

lemma lockDown_ok:
  assumes "wf_grid (board g)" "\<not> collision (board g) (current g) 0 0 (matrix (current g))"
    and "nextQ g \<noteq> []"
  shows "\<exists>b1 b2 n g'.
           merge (board g) (current g) = Inr ((current g)\<lparr>locked := True\<rparr>, b1) \<and>
           clearLines b1 = Inr (b2, n) \<and> lockDown g = Inr g' \<and> board g' = b2 \<and> wf_grid b2 \<and>
           score g' = (if n \<noteq> 0 then score g + line_base n * level g else score g) \<and>
           lines g' = (if n \<noteq> 0 then lines g + int n else lines g) \<and>
           level g' = (if n \<noteq> 0 then max 1 ((lines g + int n) div 10 + 1) else level g) \<and>
           dropInterval g' =
             (if n \<noteq> 0 then max 80 (1000 - (max 1 ((lines g + int n) div 10 + 1) - 1) * 70)
              else dropInterval g)"
proof -
  from merge_ok[OF assms(1,2)] obtain b1
    where m: "merge (board g) (current g) = Inr ((current g)\<lparr>locked := True\<rparr>, b1)"
      and wf1: "wf_grid b1" by blast
  from clearLines_ok[OF wf1] obtain b2 n
    where c: "clearLines b1 = Inr (b2, n)" and wf2: "wf_grid b2" by blast
  from lockDown_fields[OF m c assms(3)] m c wf2 show ?thesis by blast
qed

text \<open>
  Claim C4. On a well-formed board, with a current piece that does not collide and a queued
  piece to spawn, \<open>lockDown\<close> returns; with \<open>n\<close> the number of lines cleared after the
  merge, for \<open>n > 0\<close> the score grows by \<open>[0,100,300,500,800][n]\<close> times the level (by 0
  times the level past the end of the table), \<open>lines\<close> grows by \<open>n\<close>, and level and drop
  interval are recomputed from the new \<open>lines\<close>; for \<open>n = 0\<close> all four stay. The level curve
  gives level 1 and interval 1000 at 0 lines, 2 and 930 at 10 lines, 15 and 80 at 140 lines.
\<close>

theorem lockDown_scoring:
  assumes "wf_grid (board g)" and "\<not> collision (board g) (current g) 0 0 (matrix (current g))"
    and "nextQ g \<noteq> []"
  shows "(\<exists>b1 b2 n g'.
           merge (board g) (current g) = Inr ((current g)\<lparr>locked := True\<rparr>, b1) \<and>
           clearLines b1 = Inr (b2, n) \<and> lockDown g = Inr g' \<and>
           (0 < n \<longrightarrow>
              score g' = score g + (if n \<le> 4 then [0, 100, 300, 500, 800] ! n else 0) * level g \<and>
              lines g' = lines g + int n \<and>
              level g' = max 1 (lines g' div 10 + 1) \<and>
              dropInterval g' = max 80 (1000 - (level g' - 1) * 70)) \<and>
           (n = 0 \<longrightarrow>
              score g' = score g \<and> lines g' = lines g \<and> level g' = level g \<and>
              dropInterval g' = dropInterval g)) \<and>
         level (setLevelByLines (g\<lparr>lines := 0\<rparr>)) = 1 \<and>
         dropInterval (setLevelByLines (g\<lparr>lines := 0\<rparr>)) = 1000 \<and>
         level (setLevelByLines (g\<lparr>lines := 10\<rparr>)) = 2 \<and>
         dropInterval (setLevelByLines (g\<lparr>lines := 10\<rparr>)) = 930 \<and>
         level (setLevelByLines (g\<lparr>lines := 140\<rparr>)) = 15 \<and>
         dropInterval (setLevelByLines (g\<lparr>lines := 140\<rparr>)) = 80"
proof -
  from lockDown_ok[OF assms] obtain b1 b2 n g'
    where m: "merge (board g) (current g) = Inr ((current g)\<lparr>locked := True\<rparr>, b1)"
      and c: "clearLines b1 = Inr (b2, n)" and l: "lockDown g = Inr g'"
      and f: "score g' = (if n \<noteq> 0 then score g + line_base n * level g else score g)"
             "lines g' = (if n \<noteq> 0 then lines g + int n else lines g)"
             "level g' = (if n \<noteq> 0 then max 1 ((lines g + int n) div 10 + 1) else level g)"
             "dropInterval g' =
               (if n \<noteq> 0 then max 80 (1000 - (max 1 ((lines g + int n) div 10 + 1) - 1) * 70)
                else dropInterval g)"
    by blast
  have lb: "line_base n = (if n \<le> 4 then [0, 100, 300, 500, 800] ! n else 0)"
    by (auto simp: line_base_def)
  have "(0 < n \<longrightarrow>
              score g' = score g + (if n \<le> 4 then [0, 100, 300, 500, 800] ! n else 0) * level g \<and>
              lines g' = lines g + int n \<and>
              level g' = max 1 (lines g' div 10 + 1) \<and>
              dropInterval g' = max 80 (1000 - (level g' - 1) * 70)) \<and>
           (n = 0 \<longrightarrow>
              score g' = score g \<and> lines g' = lines g \<and> level g' = level g \<and>
              dropInterval g' = dropInterval g)"
    using f unfolding lb by simp
  with m c l have first: "\<exists>b1 b2 n g'.
           merge (board g) (current g) = Inr ((current g)\<lparr>locked := True\<rparr>, b1) \<and>
           clearLines b1 = Inr (b2, n) \<and> lockDown g = Inr g' \<and>
           (0 < n \<longrightarrow>
              score g' = score g + (if n \<le> 4 then [0, 100, 300, 500, 800] ! n else 0) * level g \<and>
              lines g' = lines g + int n \<and>
              level g' = max 1 (lines g' div 10 + 1) \<and>
              dropInterval g' = max 80 (1000 - (level g' - 1) * 70)) \<and>
           (n = 0 \<longrightarrow>
              score g' = score g \<and> lines g' = lines g \<and> level g' = level g \<and>
              dropInterval g' = dropInterval g)"
    by blast
  show ?thesis
    using first by (simp add: setLevelByLines_def)
qed

theorem lockDown_scoring_witness:
  "wf_grid (board gap_game) \<and>
   \<not> collision (board gap_game) (current gap_game) 0 0 (matrix (current gap_game)) \<and>
   nextQ gap_game \<noteq> [] \<and>
   (\<exists>g'. lockDown gap_game = Inr g' \<and> score g' = 100 \<and> lines g' = 1 \<and> level g' = 1 \<and>
         dropInterval g' = 1000)"
proof -
  have h1: "wf_grid (board gap_game)"
    by (simp add: gap_game_def start_game_def wf_grid_def ROWS_def COLS_def list_all_iff)
  have h2: "\<not> collision (board gap_game) (current gap_game) 0 0 (matrix (current gap_game))"
    by (simp add: gap_game_def start_game_def) code_simp
  have h3: "nextQ gap_game \<noteq> []"
    by (simp add: gap_game_def start_game_def)
  have m: "merge (board gap_game) (current gap_game) =
             Inr ((current gap_game)\<lparr>locked := True\<rparr>,
                  replicate 18 (replicate 10 None) @
                  [[None, None, None, Some KO, Some KO, None, None, None, None, None],
                   [Some KI, Some KI, Some KI, Some KO, Some KO,
                    Some KI, Some KI, Some KI, Some KI, Some KI]])"
    by (simp add: gap_game_def start_game_def) code_simp
  have c: "clearLines (replicate 18 (replicate 10 None) @
                  [[None, None, None, Some KO, Some KO, None, None, None, None, None],
                   [Some KI, Some KI, Some KI, Some KO, Some KO,
                    Some KI, Some KI, Some KI, Some KI, Some KI]]) =
           Inr (replicate 19 (replicate 10 None) @
                  [[None, None, None, Some KO, Some KO, None, None, None, None, None]], 1)"
    by code_simp
  have lv: "score gap_game = 0" "lines gap_game = 0" "level gap_game = 1"
    by (simp_all add: gap_game_def start_game_def)
  show ?thesis
    using h1 h2 h3 lockDown_scoring [OF h1 h2 h3] m c lv
    by auto
qed


section \<open>Hard drop\<close>

lemma collision_shift:
  "collision b (c\<lparr>py := py c + k\<rparr>) ox oy m = collision b c ox (oy + k) m"
  by (simp add: collision_cell_hit cell_hit_def Let_def algebra_simps)

lemma hardDrop_loop_fall:
  "(\<forall>i<n. \<not> collision b c 0 (int i + 1) (matrix c)) \<Longrightarrow>
   collision b c 0 (int n + 1) (matrix c) \<Longrightarrow>
   hardDrop_loop b c d = Some (c\<lparr>py := py c + int n\<rparr>, d + n)"
proof (induction n arbitrary: c d)
  case 0
  then show ?case by (subst hardDrop_loop.simps) simp
next
  case (Suc n)
  let ?c = "c\<lparr>py := py c + 1\<rparr>"
  from Suc.prems(1) have free: "\<not> collision b c 0 1 (matrix c)" by force
  have a: "\<forall>i<n. \<not> collision b ?c 0 (int i + 1) (matrix ?c)"
  proof (intro allI impI)
    fix i assume "i < n"
    then have "\<not> collision b c 0 (int (Suc i) + 1) (matrix c)" using Suc.prems(1) by blast
    moreover have "collision b ?c 0 (int i + 1) (matrix ?c) =
                   collision b c 0 (int i + 1 + 1) (matrix c)"
      by (simp add: collision_shift)
    moreover have "int (Suc i) + 1 = int i + 1 + 1" by simp
    ultimately show "\<not> collision b ?c 0 (int i + 1) (matrix ?c)"
      by simp
  qed
  have "collision b ?c 0 (int n + 1) (matrix ?c) = collision b c 0 (int n + 1 + 1) (matrix c)"
    by (simp add: collision_shift)
  moreover have "int (Suc n) + 1 = int n + 1 + 1" by simp
  ultimately have b: "collision b ?c 0 (int n + 1) (matrix ?c)"
    using Suc.prems(2) by simp
  have "hardDrop_loop b c d = hardDrop_loop b ?c (d + 1)"
    using free by (subst hardDrop_loop.simps) simp
  also have "\<dots> = Some (?c\<lparr>py := py ?c + int n\<rparr>, d + 1 + n)"
    by (rule Suc.IH[OF a b])
  finally show ?case by (simp add: algebra_simps)
qed

lemma has_filled_iff:
  "has_filled m \<longleftrightarrow> (\<exists>y<length m. \<exists>x<length (m ! y). m ! y ! x \<noteq> 0)"
  by (simp add: has_filled_def list_ex_length)

lemma floor_reached:
  assumes "has_filled m"
  shows "\<exists>k. collision b c 0 (int k + 1) m"
proof -
  from assms obtain y x where yx: "y < length m" "x < length (m ! y)" "m ! y ! x \<noteq> 0"
    unfolding has_filled_iff by blast
  have "cell_hit b c 0 (int (nat (20 - py c)) + 1) y x"
    by (simp add: cell_hit_def Let_def)
  with yx show ?thesis unfolding collision_cell_hit by blast
qed

lemma hardDrop_loop_returns:
  assumes "has_filled (matrix c)"
  shows "\<exists>n. (\<forall>i<n. \<not> collision b c 0 (int i + 1) (matrix c)) \<and>
             collision b c 0 (int n + 1) (matrix c) \<and>
             hardDrop_loop b c d = Some (c\<lparr>py := py c + int n\<rparr>, d + n)"
proof -
  let ?P = "\<lambda>k. collision b c 0 (int k + 1) (matrix c)"
  from floor_reached[OF assms] have ex: "\<exists>k. ?P k" .
  define n where "n = (LEAST k. ?P k)"
  have hit: "?P n" unfolding n_def using ex by (rule LeastI_ex)
  have free: "\<forall>i<n. \<not> ?P i" unfolding n_def using not_less_Least by blast
  from hardDrop_loop_fall[OF free hit] free hit show ?thesis by blast
qed

lemma spawnIfNeeded_timer_free:
  "locked (current g) \<Longrightarrow>
   spawnIfNeeded (g\<lparr>lockTimer := t, grounded := f\<rparr>) = spawnIfNeeded g"
  by (cases "nextQ g"; cases "Bag_next (bag g)"; cases "fst (Bag_next (bag g))")
     (simp_all add: spawnIfNeeded_def Let_def)

lemma lockDown_timer_free:
  "lockDown (g\<lparr>lockTimer := t, grounded := f\<rparr>) = lockDown g"
proof (cases "merge (board g) (current g)")
  case (Inl e)
  then show ?thesis by (simp add: lockDown_def)
next
  case (Inr pr)
  obtain c1 b1 where pr: "pr = (c1, b1)" by (cases pr)
  show ?thesis
  proof (cases "clearLines b1")
    case (Inl e)
    with Inr pr show ?thesis by (simp add: lockDown_def)
  next
    case cl: (Inr res)
    obtain b2 n where res: "res = (b2, n)" by (cases res)
    define g2 where
      "g2 = (if n \<noteq> 0 then
               (let h = g\<lparr>current := c1, board := b2\<rparr>;
                    h = h\<lparr>score := score h + line_base n * level h\<rparr>;
                    h = h\<lparr>lines := lines h + int n\<rparr>;
                    h = setLevelByLines h
                in h\<lparr>clearedRows := [], flashMs := 220,
                     shake := min 0.6 (0.25 + real n * 0.12)\<rparr>)
             else g\<lparr>current := c1, board := b2, shake := max (shake g) 0.18\<rparr>)"
    define g3 where "g3 = g2\<lparr>current := (current g2)\<lparr>locked := True\<rparr>\<rparr>"
    have l3: "locked (current g3)" by (simp add: g3_def)
    have A: "lockDown g = (case spawnIfNeeded g3 of Inl e \<Rightarrow> Inl e
                           | Inr g4 \<Rightarrow> Inr (g4\<lparr>lockTimer := 0, grounded := False\<rparr>))"
      using Inr pr cl res by (simp add: lockDown_def Let_def g3_def g2_def)
    have B: "lockDown (g\<lparr>lockTimer := t, grounded := f\<rparr>) =
               (case spawnIfNeeded (g3\<lparr>lockTimer := t, grounded := f\<rparr>) of Inl e \<Rightarrow> Inl e
                | Inr g4 \<Rightarrow> Inr (g4\<lparr>lockTimer := 0, grounded := False\<rparr>))"
      using Inr pr cl res
      by (cases g) (simp add: lockDown_def Let_def g3_def g2_def setLevelByLines_def)
    show ?thesis
      unfolding A B spawnIfNeeded_timer_free[OF l3] ..
  qed
qed

text \<open>
  Claim C5. On a well-formed board, with a current piece that has a filled cell and does
  not collide, a queued piece to spawn and a level that is not negative, \<open>hardDrop\<close> returns:
  the piece falls \<open>n\<close> rows, where no row down to the \<open>n\<close>-th collides and the next one does,
  \<open>2n\<close> is added to the score, and \<open>lockDown\<close> runs on that state at once, so that the
  score never decreases; the lock timer and the grounded flag play no part in the result.
\<close>

theorem hardDrop_scores:
  assumes "wf_grid (board g)"
    and "\<not> collision (board g) (current g) 0 0 (matrix (current g))"
    and "has_filled (matrix (current g))"
    and "nextQ g \<noteq> []"
    and "0 \<le> level g"
  shows "\<exists>n g'.
           (\<forall>i\<le>n. \<not> collision (board g) (current g) 0 (int i) (matrix (current g))) \<and>
           collision (board g) (current g) 0 (int n + 1) (matrix (current g)) \<and>
           hardDrop g =
             Some (lockDown (g\<lparr>current := (current g)\<lparr>py := py (current g) + int n\<rparr>,
                              score := score g + int n * 2\<rparr>)) \<and>
           hardDrop g = Some (Inr g') \<and>
           score g + 2 * int n \<le> score g' \<and> score g \<le> score g' \<and>
           (\<forall>t f. hardDrop (g\<lparr>lockTimer := t, grounded := f\<rparr>) = hardDrop g)"
proof -
  let ?b = "board g" and ?c = "current g"
  from hardDrop_loop_returns[OF assms(3), of ?b 0] obtain n
    where free: "\<forall>i<n. \<not> collision ?b ?c 0 (int i + 1) (matrix ?c)"
      and hit: "collision ?b ?c 0 (int n + 1) (matrix ?c)"
      and loop: "hardDrop_loop ?b ?c 0 = Some (?c\<lparr>py := py ?c + int n\<rparr>, 0 + n)"
    by blast
  have all_free: "\<forall>i\<le>n. \<not> collision ?b ?c 0 (int i) (matrix ?c)"
  proof (intro allI impI)
    fix i assume le: "i \<le> n"
    show "\<not> collision ?b ?c 0 (int i) (matrix ?c)"
    proof (cases i)
      case 0
      with assms(2) show ?thesis by simp
    next
      case (Suc j)
      with le free have "\<not> collision ?b ?c 0 (int j + 1) (matrix ?c)" by simp
      then show ?thesis using Suc by (simp add: add.commute)
    qed
  qed
  define gd where
    "gd = g\<lparr>current := ?c\<lparr>py := py ?c + int n\<rparr>, score := score g + int n * 2\<rparr>"
  have hd: "hardDrop g = Some (lockDown gd)"
    using loop by (simp add: hardDrop_def gd_def)
  have "collision (board gd) (current gd) 0 0 (matrix (current gd)) =
        collision ?b ?c 0 (0 + int n) (matrix ?c)"
    by (simp add: gd_def collision_shift)
  with all_free have nc: "\<not> collision (board gd) (current gd) 0 0 (matrix (current gd))"
    by simp
  have wf: "wf_grid (board gd)" and nq: "nextQ gd \<noteq> []"
    using assms(1,4) by (simp_all add: gd_def)
  from lockDown_ok[OF wf nc nq] obtain k g'
    where ld: "lockDown gd = Inr g'"
      and sc: "score g' = (if k \<noteq> 0 then score gd + line_base k * level gd else score gd)"
    by blast
  have "0 \<le> line_base k * level gd"
    using line_base_nonneg[of k] assms(5) by (simp add: gd_def)
  with sc have "score gd \<le> score g'" by (simp split: if_splits)
  then have mono: "score g + 2 * int n \<le> score g'" by (simp add: gd_def)
  have bypass: "hardDrop (g\<lparr>lockTimer := t, grounded := f\<rparr>) = hardDrop g" for t f
  proof -
    have "(g\<lparr>lockTimer := t, grounded := f\<rparr>)
            \<lparr>current := ?c\<lparr>py := py ?c + int n\<rparr>, score := score g + int n * 2\<rparr> =
          gd\<lparr>lockTimer := t, grounded := f\<rparr>"
      by (cases g) (simp add: gd_def)
    then have "hardDrop (g\<lparr>lockTimer := t, grounded := f\<rparr>) =
               Some (lockDown (gd\<lparr>lockTimer := t, grounded := f\<rparr>))"
      using loop by (simp add: hardDrop_def)
    then show ?thesis by (simp add: lockDown_timer_free hd)
  qed
  show ?thesis
    using all_free hit hd ld mono bypass unfolding gd_def
    by (intro exI[of _ n] exI[of _ g']) simp
qed

lemma grid_at_new_grid: "grid_at new_grid a b = None"
  by (simp add: grid_at_def new_grid_def ROWS_def COLS_def)

lemma collision_I_start:
  "collision new_grid (new_Piece KI) 0 k (TETROS KI) \<longleftrightarrow> 19 \<le> k"
  by (auto simp: collision_cell_hit cell_hit_def Let_def grid_at_new_grid TETROS_def new_Piece_def
                Ex_less_Suc numeral_eq_Suc nth_Cons')

theorem hardDrop_scores_witness:
  "wf_grid (board (start_game KI)) \<and>
   \<not> collision (board (start_game KI)) (current (start_game KI)) 0 0
       (matrix (current (start_game KI))) \<and>
   has_filled (matrix (current (start_game KI))) \<and>
   nextQ (start_game KI) \<noteq> [] \<and> 0 \<le> level (start_game KI) \<and>
   (\<exists>g'. hardDrop (start_game KI) = Some (Inr g') \<and> 36 \<le> score g')"
proof -
  have cur: "board (start_game KI) = new_grid" "current (start_game KI) = new_Piece KI"
    "matrix (new_Piece KI) = TETROS KI" "score (start_game KI) = 0"
    by (simp_all add: start_game_def new_Piece_def)
  have h1: "wf_grid (board (start_game KI))" by (simp add: cur wf_new_grid)
  have h2: "\<not> collision (board (start_game KI)) (current (start_game KI)) 0 0
              (matrix (current (start_game KI)))"
    by (simp add: cur collision_I_start)
  have h3: "has_filled (matrix (current (start_game KI)))"
    by (simp add: cur TETROS_def has_filled_def)
  have h4: "nextQ (start_game KI) \<noteq> []" by (simp add: start_game_def)
  have h5: "0 \<le> level (start_game KI)" by (simp add: start_game_def)
  from hardDrop_scores [OF h1 h2 h3 h4 h5] obtain n g'
    where free: "\<forall>i\<le>n. \<not> 19 \<le> int i" and hit: "19 \<le> int n + 1"
      and hd: "hardDrop (start_game KI) = Some (Inr g')"
      and sc: "score (start_game KI) + 2 * int n \<le> score g'"
    unfolding cur collision_I_start by blast
  from free have "\<not> 19 \<le> int n" by blast
  with hit have "n = 18" by simp
  with sc have "36 \<le> score g'" by (simp add: cur)
  with hd h1 h2 h3 h4 h5 show ?thesis by blast
qed


section \<open>Gravity\<close>

lemma update_timers_fields:
  "elapsed (update_timers g delta) = elapsed g + delta"
  "score (update_timers g delta) = score g"
  "current (update_timers g delta) = current g"
  "board (update_timers g delta) = board g"
  "dropInterval (update_timers g delta) = dropInterval g"
  by (simp_all add: update_timers_def Let_def)

lemma update_gravity_eq:
  "real_of_int (dropInterval s) \<le> elapsed s \<Longrightarrow>
   update_gravity s =
     (if collision (board s) (current s) 0 1 (matrix (current s))
      then s\<lparr>elapsed := 0, grounded := True\<rparr>
      else s\<lparr>elapsed := 0, current := (current s)\<lparr>py := py (current s) + 1\<rparr>,
             score := score s + 1, grounded := False, lockTimer := 0\<rparr>)"
  by (simp add: update_gravity_def softDrop_def Let_def)

lemma collision_T_start:
  "\<not> collision new_grid (new_Piece KT) 0 1 (TETROS KT)"
  by (auto simp: collision_cell_hit cell_hit_def Let_def grid_at_new_grid TETROS_def new_Piece_def
                Ex_less_Suc numeral_eq_Suc nth_Cons')

text \<open>
  Claim C6, as amended. In an \<open>update\<close> call on a game that is neither paused nor over, when
  the elapsed time with \<open>delta\<close> added reaches \<open>dropInterval\<close>, the gravity step sets \<open>elapsed\<close>
  to 0 and calls \<open>softDrop\<close>: when the row below is free the piece moves down one row, 1 is
  added to the score, and \<open>grounded\<close> and \<open>lockTimer\<close> are cleared; when it is blocked
  \<open>grounded\<close> is set; nothing else changes in that step.
\<close>

theorem gravity_step:
  assumes "\<not> paused g" and "\<not> over g" and "real_of_int (dropInterval g) \<le> elapsed g + delta"
  shows "(let s = update_timers g delta
          in elapsed s = elapsed g + delta \<and> score s = score g \<and>
             current s = current g \<and> board s = board g \<and>
             update g left right delta =
               update_lock (update_das (update_gravity s) left right delta) delta \<and>
             update_gravity s =
               (if collision (board s) (current s) 0 1 (matrix (current s))
                then s\<lparr>elapsed := 0, grounded := True\<rparr>
                else s\<lparr>elapsed := 0, current := (current s)\<lparr>py := py (current s) + 1\<rparr>,
                       score := score s + 1, grounded := False, lockTimer := 0\<rparr>))"
proof -
  have "real_of_int (dropInterval (update_timers g delta)) \<le> elapsed (update_timers g delta)"
    using assms(3) by (simp add: update_timers_fields)
  from update_gravity_eq[OF this] assms(1,2) show ?thesis
    by (simp add: Let_def update_timers_fields update_def)
qed

theorem gravity_step_witness:
  "\<not> paused (start_game KT) \<and> \<not> over (start_game KT) \<and>
   real_of_int (dropInterval (start_game KT)) \<le> elapsed (start_game KT) + 1000 \<and>
   update_gravity (update_timers (start_game KT) 1000) =
     (update_timers (start_game KT) 1000)
       \<lparr>elapsed := 0, current := (new_Piece KT)\<lparr>py := 1\<rparr>,
        score := 1, grounded := False, lockTimer := 0\<rparr>"
proof -
  have h1: "\<not> paused (start_game KT)" and h2: "\<not> over (start_game KT)"
    and h3: "real_of_int (dropInterval (start_game KT)) \<le> elapsed (start_game KT) + 1000"
    by (simp_all add: start_game_def)
  have cur: "board (start_game KT) = new_grid" "current (start_game KT) = new_Piece KT"
    "matrix (new_Piece KT) = TETROS KT" "score (start_game KT) = 0" "py (new_Piece KT) = 0"
    by (simp_all add: start_game_def new_Piece_def)
  show ?thesis
    using h1 h2 h3 gravity_step [OF h1 h2 h3, of False False] collision_T_start
    by (simp add: Let_def cur)
qed

text \<open>
  The gravity step does change the score: a new game with the T piece, updated with a
  \<open>delta\<close> of 1000 ms and no key held, ends with the piece one row down and a score of 1.
\<close>

theorem gravity_scores_counterexample:
  "\<not> paused (start_game KT) \<and> \<not> over (start_game KT) \<and>
   real_of_int (dropInterval (start_game KT)) \<le> elapsed (start_game KT) + 1000 \<and>
   score (start_game KT) = 0 \<and>
   score (update_gravity (update_timers (start_game KT) 1000)) = 1 \<and>
   update (start_game KT) False False 1000 =
     Inr ((start_game KT)\<lparr>current := (new_Piece KT)\<lparr>py := 1\<rparr>, score := 1\<rparr>)"
proof -
  have cur: "board (start_game KT) = new_grid" "current (start_game KT) = new_Piece KT"
    "matrix (new_Piece KT) = TETROS KT"
    by (simp_all add: start_game_def new_Piece_def)
  have t: "update_timers (start_game KT) 1000 = (start_game KT)\<lparr>elapsed := 1000\<rparr>"
    by (simp add: update_timers_def start_game_def)
  have g: "update_gravity ((start_game KT)\<lparr>elapsed := 1000\<rparr>) =
           (start_game KT)\<lparr>current := (new_Piece KT)\<lparr>py := 1\<rparr>, score := 1\<rparr>"
    using collision_T_start
    by (simp add: update_gravity_def softDrop_def cur) (simp add: start_game_def new_Piece_def)
  have d: "update_das ((start_game KT)\<lparr>current := (new_Piece KT)\<lparr>py := 1\<rparr>, score := 1\<rparr>)
             False False 1000 =
           (start_game KT)\<lparr>current := (new_Piece KT)\<lparr>py := 1\<rparr>, score := 1\<rparr>"
    by (simp add: update_das_def start_game_def)
  have l: "update_lock ((start_game KT)\<lparr>current := (new_Piece KT)\<lparr>py := 1\<rparr>, score := 1\<rparr>)
             1000 =
           Inr ((start_game KT)\<lparr>current := (new_Piece KT)\<lparr>py := 1\<rparr>, score := 1\<rparr>)"
    by (simp add: update_lock_def start_game_def)
  have u: "update (start_game KT) False False 1000 =
     Inr ((start_game KT)\<lparr>current := (new_Piece KT)\<lparr>py := 1\<rparr>, score := 1\<rparr>)"
    by (simp add: update_def Let_def t g d l) (simp add: start_game_def)
  show ?thesis
    using u by (simp add: t g) (simp add: start_game_def)
qed


end
